theory Spec2Isabelle
  imports Complex_Main "HOL-Library.AList" "HOL-Library.Multiset"
begin

section \<open>Running Total Stacked Bar Chart: the transform pipeline of \<open>src/visual.ts\<close>\<close>

text \<open>
  The visual is TypeScript; at run time it is JavaScript. Period labels and category
  names are strings, as the signatures of the four private methods declare. Value cells
  come from the host as \<open>PrimitiveValue\<close> and are only \<^emph>\<open>asserted\<close> to be numbers
  (\<open>as number\<close>), so they are modelled as JavaScript values. A JavaScript number is
  modelled as a real number or \<open>NaN\<close>: rounding and the infinities of IEEE doubles are
  outside this development.
\<close>

subsection \<open>JavaScript values\<close>

text \<open>
  \<open>Opaque\<close> stands for a value that is truthy and is not a number, and whose identity
  the model does not track: a \<open>Date\<close>, a function, the \<open>Object.prototype\<close> object, or a
  non-empty string whose characters depend on how the engine prints numbers and functions.
\<close>

datatype jsval = Num real | NaN | Undefined | Null | Bool bool | Str string | Opaque

text \<open>\<open>ToBoolean\<close>: what \<open>!v\<close>, \<open>v || w\<close> and \<open>v ? a : b\<close> test.\<close>

fun truthy :: "jsval \<Rightarrow> bool" where
  "truthy (Num x) = (x \<noteq> 0)"
| "truthy NaN = False"
| "truthy Undefined = False"
| "truthy Null = False"
| "truthy (Bool b) = b"
| "truthy (Str s) = (s \<noteq> [])"
| "truthy Opaque = True"

text \<open>\<open>a || b\<close>\<close>

definition js_or :: "jsval \<Rightarrow> jsval \<Rightarrow> jsval" where
  "js_or a b = (if truthy a then a else b)"

text \<open>\<open>ToNumber\<close> on the primitives that are not strings; \<open>None\<close> is \<open>NaN\<close>.\<close>

fun toNumber :: "jsval \<Rightarrow> real option" where
  "toNumber (Num x) = Some x"
| "toNumber Null = Some 0"
| "toNumber (Bool b) = Some (if b then 1 else 0)"
| "toNumber _ = None"

fun isStringLike :: "jsval \<Rightarrow> bool" where
  "isStringLike (Str s) = True"
| "isStringLike Opaque = True"
| "isStringLike _ = False"

text \<open>
  \<open>a + b\<close>: when an operand is a string, or an object (whose primitive is a string), the
  result is the concatenation, a string; it is non-empty unless both operands are empty
  strings. Otherwise both operands are converted to numbers and added.
\<close>

fun js_add :: "jsval \<Rightarrow> jsval \<Rightarrow> jsval" where
  "js_add (Str s) (Str t) = Str (s @ t)"
| "js_add a b =
     (if isStringLike a \<or> isStringLike b then Opaque
      else (case (toNumber a, toNumber b) of
              (Some x, Some y) \<Rightarrow> Num (x + y)
            | _ \<Rightarrow> NaN))"

text \<open>\<open>xs[i]\<close> on an array: \<open>undefined\<close> out of range.\<close>

definition array_get :: "jsval list \<Rightarrow> nat \<Rightarrow> jsval" where
  "array_get xs i = (if i < length xs then xs ! i else Undefined)"

subsection \<open>Objects used as dictionaries\<close>

text \<open>
  \<open>runningTotals\<close> and every \<open>StackedDataPoint\<close> are plain objects indexed by category
  name. A plain object has own properties and inherits the members of
  \<open>Object.prototype\<close> unless its prototype has been set to \<open>null\<close>. The own properties
  are listed here in the order they were first written; the visual never enumerates them.
\<close>

record jsobject =
  props :: "(string \<times> jsval) list"
  hasPrototype :: bool

definition objectPrototypeMembers :: "string list" where
  "objectPrototypeMembers =
     [''constructor'', ''toString'', ''toLocaleString'', ''valueOf'', ''hasOwnProperty'',
      ''isPrototypeOf'', ''propertyIsEnumerable'', ''__proto__'', ''__defineGetter__'',
      ''__defineSetter__'', ''__lookupGetter__'', ''__lookupSetter__'']"

text \<open>\<open>obj[k]\<close>: the own property, else the inherited member, else \<open>undefined\<close>.\<close>

definition getProp :: "jsobject \<Rightarrow> string \<Rightarrow> jsval" where
  "getProp obj k =
     (case map_of (props obj) k of
        Some v \<Rightarrow> v
      | None \<Rightarrow> if hasPrototype obj \<and> k \<in> set objectPrototypeMembers then Opaque else Undefined)"

text \<open>
  \<open>obj[k] = v\<close>. Under \<open>Object.prototype\<close> the name \<open>__proto__\<close> is an accessor: its
  setter replaces the prototype when \<open>v\<close> is \<open>null\<close>, and does nothing when \<open>v\<close> is any
  other primitive or \<open>Object.prototype\<close> itself. Every other assignment writes an own
  property.
\<close>

definition setProp :: "jsobject \<Rightarrow> string \<Rightarrow> jsval \<Rightarrow> jsobject" where
  "setProp obj k v =
     (if k = ''__proto__'' \<and> hasPrototype obj
      then (if v = Null then obj\<lparr>hasPrototype := False\<rparr> else obj)
      else obj\<lparr>props := AList.update k v (props obj)\<rparr>)"

text \<open>The object literal \<open>{}\<close>.\<close>

definition emptyObject :: jsobject where
  "emptyObject = \<lparr>props = [], hasPrototype = True\<rparr>"

subsection \<open>The data model\<close>

record DataPoint =
  quarter :: string
  category :: string
  "value" :: jsval

record ProcessedDataPoint = DataPoint +
  runningTotal :: jsval

text \<open>A \<open>StackedDataPoint\<close> is the object \<open>{quarter: q, [category]: number, ...}\<close>.\<close>

type_synonym StackedDataPoint = jsobject

text \<open>
  The host's table: \<open>values.grouped()\<close> is a list of groups, each with a name and its
  measure columns; \<open>values.length\<close> is read on its own.
\<close>

record DataViewValueColumn =
  column_values :: "jsval list"

record DataViewValueColumnGroup =
  group_name :: string
  group_values :: "DataViewValueColumn list"

record DataViewValueColumns =
  values_length :: nat
  grouped :: "DataViewValueColumnGroup list"

record DataViewCategoryColumn =
  category_values :: "string list"

record DataViewCategorical =
  categories :: "DataViewCategoryColumn list option"
  categorical_values :: "DataViewValueColumns option"

record DataView =
  categorical :: "DataViewCategorical option"

record VisualUpdateOptions =
  dataViews :: "DataView list"
  viewport_width :: real
  viewport_height :: real

datatype error = TypeError

subsection \<open>\<open>sortQuarters\<close>\<close>

text \<open>
  \<open>Array.prototype.sort\<close> is a stable sort that reorders the array it is called on and
  returns that same array. \<open>String.prototype.localeCompare\<close> depends on the host's
  locale, so the comparator is a parameter \<open>cmp\<close>: negative, zero or positive.
\<close>

fun insert_by :: "('a \<Rightarrow> 'a \<Rightarrow> int) \<Rightarrow> 'a \<Rightarrow> 'a list \<Rightarrow> 'a list" where
  "insert_by cmp x [] = [x]"
| "insert_by cmp x (y # ys) = (if cmp x y \<le> 0 then x # y # ys else y # insert_by cmp x ys)"

fun array_sort :: "('a \<Rightarrow> 'a \<Rightarrow> int) \<Rightarrow> 'a list \<Rightarrow> 'a list" where
  "array_sort cmp [] = []"
| "array_sort cmp (x # xs) = insert_by cmp x (array_sort cmp xs)"

text \<open>Arrays of strings live in a store; a variable holds a reference.\<close>

type_synonym ref = nat
type_synonym heap = "ref \<Rightarrow> string list"

definition sortQuarters :: "(string \<Rightarrow> string \<Rightarrow> int) \<Rightarrow> heap \<Rightarrow> ref \<Rightarrow> heap \<times> ref" where
  "sortQuarters cmp h quarters = (h(quarters := array_sort cmp (h quarters)), quarters)"

subsection \<open>\<open>buildDataArray\<close>\<close>

text \<open>
  The inner loop over \<open>i\<close>. \<open>valueColumn\<close> is \<open>None\<close> when the group has no measure; it
  is dereferenced only inside the loop, where \<open>valueColumn.values\<close> then throws.
\<close>

function innerLoop ::
  "string list \<Rightarrow> string \<Rightarrow> DataViewValueColumn option \<Rightarrow> nat \<Rightarrow> DataPoint list
     \<Rightarrow> error + DataPoint list" where
  "innerLoop quarters cat valueColumn i data =
     (if i < length quarters then
        (case valueColumn of
           None \<Rightarrow> Inl TypeError
         | Some col \<Rightarrow>
             innerLoop quarters cat valueColumn (Suc i)
               (data @ [\<lparr>quarter = quarters ! i, category = cat,
                         value = js_or (array_get (column_values col) i) (Num 0)\<rparr>]))
      else Inr data)"
  by pat_completeness auto
termination
  by (relation "measure (\<lambda>(quarters, cat, valueColumn, i, data). length quarters - i)") auto

text \<open>
  The outer loop over \<open>j\<close>. \<open>values.grouped()[j]\<close> is \<open>undefined\<close> past the last group,
  and \<open>.values\<close> on it throws; \<open>.values[0]\<close> of a group with no measure is \<open>undefined\<close>.
\<close>

function outerLoop ::
  "string list \<Rightarrow> string list \<Rightarrow> DataViewValueColumnGroup list \<Rightarrow> nat \<Rightarrow> DataPoint list
     \<Rightarrow> error + DataPoint list" where
  "outerLoop quarters seriesCategories groups j data =
     (if j < length seriesCategories then
        (if j < length groups then
           (case innerLoop quarters (seriesCategories ! j)
                   (case group_values (groups ! j) of [] \<Rightarrow> None | col # _ \<Rightarrow> Some col) 0 data of
              Inl e \<Rightarrow> Inl e
            | Inr data' \<Rightarrow> outerLoop quarters seriesCategories groups (Suc j) data')
         else Inl TypeError)
      else Inr data)"
  by pat_completeness auto
termination
  by (relation "measure (\<lambda>(quarters, seriesCategories, groups, j, data).
        length seriesCategories - j)") auto

declare innerLoop.simps [simp del] outerLoop.simps [simp del]

definition buildDataArray ::
  "string list \<Rightarrow> string list \<Rightarrow> DataViewValueColumns \<Rightarrow> error + DataPoint list" where
  "buildDataArray quarters seriesCategories vals =
     outerLoop quarters seriesCategories (grouped vals) 0 []"

subsection \<open>\<open>computeRunningTotals\<close>\<close>

text \<open>The body of the \<open>forEach\<close> callback, on the state \<open>(runningTotals, processedData)\<close>.\<close>

definition runningTotalStep ::
  "DataPoint \<Rightarrow> jsobject \<times> ProcessedDataPoint list \<Rightarrow> jsobject \<times> ProcessedDataPoint list" where
  "runningTotalStep d st =
     (let runningTotals = fst st;
          key = category d;
          rt1 = (if \<not> truthy (getProp runningTotals key)
                 then setProp runningTotals key (Num 0) else runningTotals);
          rt2 = setProp rt1 key (js_add (getProp rt1 key) (value d))
      in (rt2, snd st @ [\<lparr>quarter = quarter d, category = category d, value = value d,
                           runningTotal = getProp rt2 key\<rparr>]))"

definition computeRunningTotals :: "DataPoint list \<Rightarrow> ProcessedDataPoint list" where
  "computeRunningTotals data = snd (fold runningTotalStep data (emptyObject, []))"

subsection \<open>\<open>transformToStackedData\<close>\<close>

text \<open>The inner \<open>forEach\<close> callback: one category field of the record under construction.\<close>

definition stackField ::
  "ProcessedDataPoint list \<Rightarrow> string \<Rightarrow> string \<Rightarrow> StackedDataPoint \<Rightarrow> StackedDataPoint" where
  "stackField processedData q cat dataPoint =
     setProp dataPoint cat
       (case find (\<lambda>d. quarter d = q \<and> category d = cat) processedData of
          Some filteredData \<Rightarrow> runningTotal filteredData
        | None \<Rightarrow> Num 0)"

definition stackRecord ::
  "ProcessedDataPoint list \<Rightarrow> string list \<Rightarrow> string \<Rightarrow> StackedDataPoint" where
  "stackRecord processedData seriesCategories q =
     fold (stackField processedData q) seriesCategories
       \<lparr>props = [(''quarter'', Str q)], hasPrototype = True\<rparr>"

definition transformToStackedData ::
  "ProcessedDataPoint list \<Rightarrow> string list \<Rightarrow> string list \<Rightarrow> StackedDataPoint list" where
  "transformToStackedData processedData quarters seriesCategories =
     map (stackRecord processedData seriesCategories) quarters"

subsection \<open>\<open>update\<close>\<close>

text \<open>
  The accessor handed to \<open>d3.max\<close>: \<open>total += d[category] as number || 0\<close> over the
  category list, starting from \<open>0\<close>.
\<close>

definition stackTotal :: "string list \<Rightarrow> StackedDataPoint \<Rightarrow> jsval" where
  "stackTotal seriesCategories d =
     fold (\<lambda>cat total. js_add total (js_or (getProp d cat) (Num 0))) seriesCategories (Num 0)"

text \<open>
  \<open>d3.max\<close> belongs to the d3 library: it returns the greatest value in natural order,
  skips \<open>undefined\<close>, \<open>null\<close> and \<open>NaN\<close>, and returns \<open>undefined\<close> when nothing is left.
  The first argument is the maximum so far. The order of strings, objects and booleans is
  not modelled: on such a value the result is \<open>None\<close>.
\<close>

fun d3_max_loop :: "jsval \<Rightarrow> jsval list \<Rightarrow> jsval option" where
  "d3_max_loop mx [] = Some mx"
| "d3_max_loop mx (Num x # vs) =
     (case mx of
        Num y \<Rightarrow> d3_max_loop (if y < x then Num x else Num y) vs
      | _ \<Rightarrow> d3_max_loop (Num x) vs)"
| "d3_max_loop mx (NaN # vs) = d3_max_loop mx vs"
| "d3_max_loop mx (Undefined # vs) = d3_max_loop mx vs"
| "d3_max_loop mx (Null # vs) = d3_max_loop mx vs"
| "d3_max_loop mx (v # vs) = None"

definition d3_max :: "jsval list \<Rightarrow> jsval option" where
  "d3_max vs = d3_max_loop Undefined vs"

text \<open>\<open>const maxY = d3.max(stackedData, accessor) || 0\<close>\<close>

definition maxY :: "StackedDataPoint list \<Rightarrow> string list \<Rightarrow> jsval option" where
  "maxY stackedData seriesCategories =
     map_option (\<lambda>m. js_or m (Num 0)) (d3_max (map (stackTotal seriesCategories) stackedData))"

text \<open>
  What \<open>update\<close> appends to the cleared target: the \<open>svg\<close> element, recorded by the
  data it is drawn from. The rectangles and labels that d3 derives from these
  (\<open>d3.stack\<close>, the band scale) are not modelled.
\<close>

record Chart =
  chart_width :: real
  chart_height :: real
  xDomain :: "string list"
  yDomain :: "(jsval \<times> jsval) option"
  stackKeys :: "string list"
  chart_data :: "StackedDataPoint list"

text \<open>
  \<open>update\<close> on the children of \<open>this.target\<close>. The result is the children afterwards
  and the exception thrown, if any. The children are removed before anything else, so
  every result starts from the empty list. \<open>category.values.map(...)\<close> allocates a
  fresh array, which is the one \<open>sortQuarters\<close> reorders.
\<close>

definition update ::
  "(string \<Rightarrow> string \<Rightarrow> int) \<Rightarrow> Chart list \<Rightarrow> VisualUpdateOptions \<Rightarrow> Chart list \<times> error option" where
  "update cmp target options =
     (case dataViews options of
        [] \<Rightarrow> ([], None)
      | dataView # _ \<Rightarrow>
          (case categorical dataView of
             None \<Rightarrow> ([], None)
           | Some cat \<Rightarrow>
               (case (categories cat, categorical_values cat) of
                  (Some cats, Some vals) \<Rightarrow>
                    (if length cats = 0 \<or> values_length vals = 0 then ([], None)
                     else
                       (let hr = sortQuarters cmp
                                   ((\<lambda>_. [])(0 := map (\<lambda>v. v) (category_values (cats ! 0)))) 0;
                            quarters = fst hr (snd hr);
                            seriesCategories = map group_name (grouped vals)
                        in (case buildDataArray quarters seriesCategories vals of
                              Inl e \<Rightarrow> ([], Some e)
                            | Inr data \<Rightarrow>
                                (let processedData = computeRunningTotals data;
                                     stackedData = transformToStackedData processedData
                                                     quarters seriesCategories
                                 in ([\<lparr>chart_width = viewport_width options,
                                        chart_height = viewport_height options,
                                        xDomain = quarters,
                                        yDomain = map_option (\<lambda>m. (Num 0, m))
                                                    (maxY stackedData seriesCategories),
                                        stackKeys = seriesCategories,
                                        chart_data = stackedData\<rparr>], None)))))
                | _ \<Rightarrow> ([], None))))"

subsection \<open>Notions used in the statements\<close>

text \<open>The number a value is, when it is one; the sum of a category's values.\<close>

definition numericValue :: "jsval \<Rightarrow> real" where
  "numericValue v = (case v of Num x \<Rightarrow> x | _ \<Rightarrow> 0)"

definition categorySum :: "string \<Rightarrow> DataPoint list \<Rightarrow> real" where
  "categorySum c ds = sum_list (map (\<lambda>d. numericValue (value d)) (filter (\<lambda>d. category d = c) ds))"

text \<open>The value table with \<open>|| 0\<close> applied to every cell.\<close>

definition withCellsCoerced :: "DataViewValueColumns \<Rightarrow> DataViewValueColumns" where
  "withCellsCoerced vals =
     vals\<lparr>grouped :=
       map (\<lambda>g. g\<lparr>group_values :=
              map (\<lambda>col. col\<lparr>column_values := map (\<lambda>cell. js_or cell (Num 0)) (column_values col)\<rparr>)
                (group_values g)\<rparr>)
         (grouped vals)\<rparr>"

section \<open>\<open>sortQuarters\<close>\<close>

lemma mset_insert_by: "mset (insert_by cmp x ys) = add_mset x (mset ys)"
  by (induction ys) auto

lemma mset_array_sort: "mset (array_sort cmp xs) = mset xs"
  by (induction xs) (auto simp: mset_insert_by)

lemma set_insert_by: "set (insert_by cmp x ys) = insert x (set ys)"
  by (induction ys) auto

lemma sorted_insert_by:
  assumes total: "\<And>a b. cmp a b \<le> 0 \<or> cmp b a \<le> 0"
    and trans: "\<And>a b c. cmp a b \<le> 0 \<Longrightarrow> cmp b c \<le> 0 \<Longrightarrow> cmp a c \<le> 0"
    and "sorted_wrt (\<lambda>a b. cmp a b \<le> 0) ys"
  shows "sorted_wrt (\<lambda>a b. cmp a b \<le> 0) (insert_by cmp x ys)"
  using assms(3)
proof (induction ys)
  case Nil
  show ?case by simp
next
  case (Cons y ys)
  show ?case
  proof (cases "cmp x y \<le> 0")
    case True
    then show ?thesis using Cons.prems trans by auto
  next
    case False
    then have "cmp y x \<le> 0" using total [of x y] by simp
    then show ?thesis using False Cons by (auto simp: set_insert_by)
  qed
qed

lemma sorted_array_sort:
  assumes total: "\<And>a b. cmp a b \<le> 0 \<or> cmp b a \<le> 0"
    and trans: "\<And>a b c. cmp a b \<le> 0 \<Longrightarrow> cmp b c \<le> 0 \<Longrightarrow> cmp a c \<le> 0"
  shows "sorted_wrt (\<lambda>a b. cmp a b \<le> 0) (array_sort cmp xs)"
  by (induction xs) (auto intro: sorted_insert_by [OF total trans])

text \<open>
  C4, as amended. \<open>sortQuarters\<close> sorts the array it is given in place and returns that
  same array: the reference returned is the argument, the argument afterwards holds what
  \<open>sort\<close> makes of its former contents, which has the same labels with the same
  multiplicities and is in ascending order of the comparator when the comparator is a
  total preorder, and every other array of the store is untouched.
\<close>

theorem sortQuarters_in_place:
  "snd (sortQuarters cmp h quarters) = quarters \<and>
   fst (sortQuarters cmp h quarters) quarters = array_sort cmp (h quarters) \<and>
   mset (fst (sortQuarters cmp h quarters) quarters) = mset (h quarters) \<and>
   (\<forall>r. r \<noteq> quarters \<longrightarrow> fst (sortQuarters cmp h quarters) r = h r) \<and>
   ((\<forall>a b. cmp a b \<le> 0 \<or> cmp b a \<le> 0) \<and>
    (\<forall>a b c. cmp a b \<le> 0 \<and> cmp b c \<le> 0 \<longrightarrow> cmp a c \<le> 0)
    \<longrightarrow> sorted_wrt (\<lambda>a b. cmp a b \<le> 0) (fst (sortQuarters cmp h quarters) quarters))"
proof -
  have s: "sorted_wrt (\<lambda>a b. cmp a b \<le> 0) (array_sort cmp (h quarters))"
    if "\<forall>a b. cmp a b \<le> 0 \<or> cmp b a \<le> 0"
      and "\<forall>a b c. cmp a b \<le> 0 \<and> cmp b c \<le> 0 \<longrightarrow> cmp a c \<le> 0"
    by (rule sorted_array_sort) (use that in blast)+
  have r: "snd (sortQuarters cmp h quarters) = quarters"
    by (simp add: sortQuarters_def)
  have f: "fst (sortQuarters cmp h quarters) quarters = array_sort cmp (h quarters)"
    by (simp add: sortQuarters_def)
  have m: "mset (fst (sortQuarters cmp h quarters) quarters) = mset (h quarters)"
    by (simp only: f mset_array_sort)
  have o: "\<forall>r. r \<noteq> quarters \<longrightarrow> fst (sortQuarters cmp h quarters) r = h r"
    by (simp add: sortQuarters_def)
  have st: "(\<forall>a b. cmp a b \<le> 0 \<or> cmp b a \<le> 0) \<and>
    (\<forall>a b c. cmp a b \<le> 0 \<and> cmp b c \<le> 0 \<longrightarrow> cmp a c \<le> 0)
    \<longrightarrow> sorted_wrt (\<lambda>a b. cmp a b \<le> 0) (fst (sortQuarters cmp h quarters) quarters)"
    unfolding f using s by blast
  show ?thesis
    by (intro conjI r f m o st)
qed

text \<open>
  C4 as stated fails: called on the array \<open>["2023Q2", "2023Q1"]\<close>, \<open>sortQuarters\<close>
  leaves that very array holding \<open>["2023Q1", "2023Q2"]\<close>, and returns the reference it
  was given rather than a new sequence.
\<close>

theorem sortQuarters_side_effect_counterexample:
  "fst (sortQuarters (\<lambda>a b. if a = b then 0 else if a = ''2023Q1'' then - 1 else 1)
          ((\<lambda>_. [])(0 := [''2023Q2'', ''2023Q1''])) 0) 0
     \<noteq> ((\<lambda>_. [])(0 := [''2023Q2'', ''2023Q1''])) 0 \<and>
   snd (sortQuarters (\<lambda>a b. if a = b then 0 else if a = ''2023Q1'' then - 1 else 1)
          ((\<lambda>_. [])(0 := [''2023Q2'', ''2023Q1''])) 0) = 0"
  by (simp add: sortQuarters_def)

theorem sortQuarters_in_place_witness:
  "snd (sortQuarters (\<lambda>a b. int (length a) - int (length b))
          ((\<lambda>_. [])(0 := [''bb'', ''a''], 1 := [''cc''])) 0) = 0 \<and>
   fst (sortQuarters (\<lambda>a b. int (length a) - int (length b))
          ((\<lambda>_. [])(0 := [''bb'', ''a''], 1 := [''cc''])) 0) 0 = [''a'', ''bb''] \<and>
   fst (sortQuarters (\<lambda>a b. int (length a) - int (length b))
          ((\<lambda>_. [])(0 := [''bb'', ''a''], 1 := [''cc''])) 0) 1 = [''cc''] \<and>
   sorted_wrt (\<lambda>a b. int (length a) - int (length b) \<le> 0)
     (fst (sortQuarters (\<lambda>a b. int (length a) - int (length b))
          ((\<lambda>_. [])(0 := [''bb'', ''a''], 1 := [''cc''])) 0) 0)"
proof -
  define cmp where "cmp = (\<lambda>(a::string) (b::string). int (length a) - int (length b))"
  define h where "h = (\<lambda>_::nat. []::string list)(0 := [''bb'', ''a''], 1 := [''cc''])"
  note inst = sortQuarters_in_place [of cmp h 0]
  have tot: "\<forall>a b. cmp a b \<le> 0 \<or> cmp b a \<le> 0"
    unfolding cmp_def by auto
  have tr: "\<forall>a b c. cmp a b \<le> 0 \<and> cmp b c \<le> 0 \<longrightarrow> cmp a c \<le> 0"
    unfolding cmp_def by auto
  have r: "snd (sortQuarters cmp h 0) = 0"
    using inst by (rule conjunct1)
  have "fst (sortQuarters cmp h 0) 0 = array_sort cmp (h 0)"
    using inst [THEN conjunct2] by (rule conjunct1)
  then have a: "fst (sortQuarters cmp h 0) 0 = [''a'', ''bb'']"
    by (simp add: cmp_def h_def)
  have "\<forall>r. r \<noteq> 0 \<longrightarrow> fst (sortQuarters cmp h 0) r = h r"
    using inst [THEN conjunct2, THEN conjunct2, THEN conjunct2] by (rule conjunct1)
  then have o: "fst (sortQuarters cmp h 0) 1 = [''cc'']"
    by (simp add: h_def)
  have "(\<forall>a b. cmp a b \<le> 0 \<or> cmp b a \<le> 0) \<and>
    (\<forall>a b c. cmp a b \<le> 0 \<and> cmp b c \<le> 0 \<longrightarrow> cmp a c \<le> 0)
    \<longrightarrow> sorted_wrt (\<lambda>a b. cmp a b \<le> 0) (fst (sortQuarters cmp h 0) 0)"
    using inst [THEN conjunct2, THEN conjunct2, THEN conjunct2] by (rule conjunct2)
  then have st: "sorted_wrt (\<lambda>a b. cmp a b \<le> 0) (fst (sortQuarters cmp h 0) 0)"
    by (rule mp) (intro conjI tot tr)
  show ?thesis
    using r a o st unfolding cmp_def h_def by (intro conjI)
qed

section \<open>\<open>buildDataArray\<close>\<close>

lemma innerLoop_None:
  "innerLoop quarters cat None i data = (if i < length quarters then Inl TypeError else Inr data)"
  by (subst innerLoop.simps) simp

lemma innerLoop_Some:
  "innerLoop quarters cat (Some col) i data =
     Inr (data @ map (\<lambda>i. \<lparr>quarter = quarters ! i, category = cat,
                           value = js_or (array_get (column_values col) i) (Num 0)\<rparr>)
                    [i..<length quarters])"
proof (induction quarters cat "Some col" i data rule: innerLoop.induct)
  case (1 quarters cat i data)
  show ?case
  proof (cases "i < length quarters")
    case True
    then show ?thesis
      using "1.hyps" [OF True refl]
      by (subst innerLoop.simps) (simp add: upt_conv_Cons)
  next
    case False
    then show ?thesis
      by (subst innerLoop.simps) simp
  qed
qed

lemma outerLoop_rows:
  assumes "\<forall>k. j \<le> k \<and> k < length seriesCategories \<longrightarrow>
             k < length groups \<and> group_values (groups ! k) \<noteq> []"
  shows "outerLoop quarters seriesCategories groups j data =
     Inr (data @ concat (map (\<lambda>j. map (\<lambda>i. \<lparr>quarter = quarters ! i, category = seriesCategories ! j,
                 value = js_or (array_get (column_values (hd (group_values (groups ! j)))) i) (Num 0)\<rparr>)
                    [0..<length quarters]) [j..<length seriesCategories]))"
  using assms
proof (induction quarters seriesCategories groups j data rule: outerLoop.induct)
  case (1 quarters seriesCategories groups j data)
  show ?case
  proof (cases "j < length seriesCategories")
    case False
    then show ?thesis by (subst outerLoop.simps) simp
  next
    case True
    from "1.prems" True have g: "j < length groups" and ne: "group_values (groups ! j) \<noteq> []"
      by auto
    then obtain col cols where gv: "group_values (groups ! j) = col # cols"
      by (cases "group_values (groups ! j)") auto
    let ?row = "map (\<lambda>i. \<lparr>quarter = quarters ! i, category = seriesCategories ! j,
                 value = js_or (array_get (column_values col) i) (Num 0)\<rparr>) [0..<length quarters]"
    have inner: "innerLoop quarters (seriesCategories ! j)
        (case group_values (groups ! j) of [] \<Rightarrow> None | col # x \<Rightarrow> Some col) 0 data = Inr (data @ ?row)"
      by (simp add: gv innerLoop_Some)
    have rest: "\<forall>k. Suc j \<le> k \<and> k < length seriesCategories \<longrightarrow>
             k < length groups \<and> group_values (groups ! k) \<noteq> []"
      using "1.prems" by auto
    have ih: "outerLoop quarters seriesCategories groups (Suc j) (data @ ?row) =
       Inr ((data @ ?row) @ concat (map (\<lambda>j. map (\<lambda>i. \<lparr>quarter = quarters ! i, category = seriesCategories ! j,
                 value = js_or (array_get (column_values (hd (group_values (groups ! j)))) i) (Num 0)\<rparr>)
                    [0..<length quarters]) [Suc j..<length seriesCategories]))"
      using "1.IH" [OF True g inner rest] .
    have inner': "innerLoop quarters (seriesCategories ! j) (Some col) 0 data = Inr (data @ ?row)"
      by (simp add: innerLoop_Some)
    show ?thesis
      by (subst outerLoop.simps) (simp add: True g inner' ih upt_conv_Cons gv)
  qed
qed

lemma nth_concat_rows:
  assumes "j < m" and "i < n" and "\<forall>k < m. length (f k) = n"
  shows "concat (map f [0..<m]) ! (j * n + i) = f j ! i"
  using assms
proof (induction m arbitrary: j)
  case 0
  then show ?case by simp
next
  case (Suc m)
  have len: "length (concat (map f [0..<m])) = m * n"
    using Suc.prems(3) by (induction m) auto
  show ?case
  proof (cases "j < m")
    case True
    have "j * n + i < m * n"
    proof -
      have "j * n + i < j * n + n" using Suc.prems(2) by simp
      also have "\<dots> = Suc j * n" by simp
      also have "\<dots> \<le> m * n" using True by (intro mult_le_mono1) simp
      finally show ?thesis .
    qed
    then show ?thesis
      using Suc.IH [of j] True Suc.prems by (simp add: nth_append len)
  next
    case False
    then have "j = m" using Suc.prems(1) by simp
    then show ?thesis
      using Suc.prems by (simp add: nth_append len)
  qed
qed

lemma length_concat_rows:
  assumes "\<forall>k < m. length (f k) = n"
  shows "length (concat (map f [0..<m])) = m * n"
  using assms by (induction m) auto

text \<open>
  C6. When \<open>values.grouped()\<close> has a group with at least one measure for every category,
  \<open>buildDataArray\<close> returns, and its result has exactly one \<open>DataPoint\<close> for every
  category index \<open>j\<close> and period index \<open>i\<close>, at position \<open>j * length quarters + i\<close>:
  all periods of category 0, then all periods of category 1, and so on. Its value is cell
  \<open>i\<close> of the first measure of group \<open>j\<close> (\<open>|| 0\<close> applied); no other measure of the
  group is read.
\<close>

theorem buildDataArray_layout:
  assumes "length seriesCategories \<le> length (grouped vals)"
    and "\<forall>j < length seriesCategories. group_values (grouped vals ! j) \<noteq> []"
  shows "\<exists>data. buildDataArray quarters seriesCategories vals = Inr data \<and>
           length data = length seriesCategories * length quarters \<and>
           (\<forall>j < length seriesCategories. \<forall>i < length quarters.
              data ! (j * length quarters + i) =
                \<lparr>quarter = quarters ! i, category = seriesCategories ! j,
                 value = js_or (array_get (column_values (group_values (grouped vals ! j) ! 0)) i)
                           (Num 0)\<rparr>)"
proof -
  let ?row = "\<lambda>j. map (\<lambda>i. \<lparr>quarter = quarters ! i, category = seriesCategories ! j,
                 value = js_or (array_get (column_values (hd (group_values (grouped vals ! j)))) i) (Num 0)\<rparr>)
                    [0..<length quarters]"
  let ?data = "concat (map ?row [0..<length seriesCategories])"
  have wf: "\<forall>k. 0 \<le> k \<and> k < length seriesCategories \<longrightarrow>
             k < length (grouped vals) \<and> group_values (grouped vals ! k) \<noteq> []"
    using assms by auto
  have eq: "buildDataArray quarters seriesCategories vals = Inr ?data"
    unfolding buildDataArray_def using outerLoop_rows [OF wf, of quarters "[]"] by simp
  have rows: "\<forall>k < length seriesCategories. length (?row k) = length quarters"
    by simp
  have len: "length ?data = length seriesCategories * length quarters"
    by (rule length_concat_rows [OF rows])
  have nth: "?data ! (j * length quarters + i) =
                \<lparr>quarter = quarters ! i, category = seriesCategories ! j,
                 value = js_or (array_get (column_values (group_values (grouped vals ! j) ! 0)) i)
                           (Num 0)\<rparr>"
    if "j < length seriesCategories" and "i < length quarters" for j i
  proof -
    have "group_values (grouped vals ! j) \<noteq> []" using assms(2) that(1) by simp
    then have hd0: "hd (group_values (grouped vals ! j)) = group_values (grouped vals ! j) ! 0"
      by (simp add: hd_conv_nth)
    have "?data ! (j * length quarters + i) = ?row j ! i"
      by (rule nth_concat_rows [OF that rows])
    then show ?thesis using that(2) by (simp add: hd0)
  qed
  show ?thesis
    using eq len nth by blast
qed

theorem buildDataArray_layout_witness:
  "\<exists>data.
     buildDataArray [''2023Q1'', ''2023Q2''] [''A'', ''B'']
       \<lparr>values_length = 3, grouped =
          [\<lparr>group_name = ''A'', group_values =
              [\<lparr>column_values = [Num 10, Num 5]\<rparr>, \<lparr>column_values = [Num 99, Num 98]\<rparr>]\<rparr>,
           \<lparr>group_name = ''B'', group_values = [\<lparr>column_values = [Num 3, Num 7]\<rparr>]\<rparr>]\<rparr>
       = Inr data \<and>
     length data = 4 \<and>
     data ! 1 = \<lparr>quarter = ''2023Q2'', category = ''A'', value = Num 5\<rparr> \<and>
     data ! 2 = \<lparr>quarter = ''2023Q1'', category = ''B'', value = Num 3\<rparr>"
proof -
  let ?vals = "\<lparr>values_length = 3, grouped =
          [\<lparr>group_name = ''A'', group_values =
              [\<lparr>column_values = [Num 10, Num 5]\<rparr>, \<lparr>column_values = [Num 99, Num 98]\<rparr>]\<rparr>,
           \<lparr>group_name = ''B'', group_values = [\<lparr>column_values = [Num 3, Num 7]\<rparr>]\<rparr>]\<rparr>"
  have h1: "length [''A'', ''B''] \<le> length (grouped ?vals)"
    by simp
  have h2: "\<forall>j < length [''A'', ''B'']. group_values (grouped ?vals ! j) \<noteq> []"
    by (simp add: less_Suc_eq numeral_2_eq_2)
  from buildDataArray_layout [OF h1 h2, of "[''2023Q1'', ''2023Q2'']"]
  obtain data where d: "buildDataArray [''2023Q1'', ''2023Q2''] [''A'', ''B''] ?vals = Inr data"
    and len: "length data = length [''A'', ''B''] * length [''2023Q1'', ''2023Q2'']"
    and nth: "\<forall>j < length [''A'', ''B'']. \<forall>i < length [''2023Q1'', ''2023Q2''].
              data ! (j * length [''2023Q1'', ''2023Q2''] + i) =
                \<lparr>quarter = [''2023Q1'', ''2023Q2''] ! i, category = [''A'', ''B''] ! j,
                 value = js_or (array_get (column_values (group_values (grouped ?vals ! j) ! 0)) i)
                           (Num 0)\<rparr>"
    by blast
  have a: "data ! 1 = \<lparr>quarter = ''2023Q2'', category = ''A'', value = Num 5\<rparr>"
    using nth [rule_format, of 0 1] by (simp add: js_or_def array_get_def)
  have b: "data ! 2 = \<lparr>quarter = ''2023Q1'', category = ''B'', value = Num 3\<rparr>"
    using nth [rule_format, of 1 0] by (simp add: js_or_def array_get_def numeral_2_eq_2)
  show ?thesis
    using d len a b by simp
qed

section \<open>\<open>computeRunningTotals\<close>\<close>

lemma step_acc:
  "runningTotalStep d (rt, acc) =
     (fst (runningTotalStep d (rt, [])), acc @ snd (runningTotalStep d (rt, [])))"
  by (simp add: runningTotalStep_def Let_def)

lemma fold_step_snd:
  "snd (fold runningTotalStep ds (rt, acc)) = acc @ snd (fold runningTotalStep ds (rt, []))"
proof (induction ds arbitrary: rt acc)
  case Nil
  show ?case by simp
next
  case (Cons d ds)
  show ?case
    using Cons.IH [of "fst (runningTotalStep d (rt, []))" "acc @ snd (runningTotalStep d (rt, []))"]
      Cons.IH [of "fst (runningTotalStep d (rt, []))" "snd (runningTotalStep d (rt, []))"]
    by (simp add: step_acc [of d rt acc] step_acc [of d rt "[]", symmetric])
qed

lemma fold_step_Cons:
  "snd (fold runningTotalStep (d # ds) (rt, [])) =
     snd (runningTotalStep d (rt, [])) @
     snd (fold runningTotalStep ds (fst (runningTotalStep d (rt, [])), []))"
proof -
  have "fold runningTotalStep (d # ds) (rt, []) =
      fold runningTotalStep ds
        (fst (runningTotalStep d (rt, [])), snd (runningTotalStep d (rt, [])))"
    by simp
  then show ?thesis
    using fold_step_snd [of ds "fst (runningTotalStep d (rt, []))"
        "snd (runningTotalStep d (rt, []))"]
    by simp
qed

lemma step_emits:
  "snd (runningTotalStep d (rt, [])) =
     [\<lparr>quarter = quarter d, category = category d, value = value d,
       runningTotal = getProp (fst (runningTotalStep d (rt, []))) (category d)\<rparr>]"
  by (simp add: runningTotalStep_def Let_def)


lemma js_add_not_Null: "js_add a b \<noteq> Null"
  by (cases a; cases b) (auto split: option.splits)

lemma getProp_setProp_same:
  "k \<noteq> ''__proto__'' \<Longrightarrow> getProp (setProp obj k v) k = v"
  by (simp add: getProp_def setProp_def AList.update_conv')

lemma getProp_setProp_other:
  "v \<noteq> Null \<Longrightarrow> c \<noteq> k \<Longrightarrow> getProp (setProp obj k v) c = getProp obj c"
  by (auto simp add: getProp_def setProp_def AList.update_conv')

lemma step_same:
  assumes "category d \<noteq> ''__proto__''"
  shows "getProp (fst (runningTotalStep d (rt, []))) (category d) =
           js_add (js_or (getProp rt (category d)) (Num 0)) (value d)"
  using assms
  by (simp add: runningTotalStep_def Let_def getProp_setProp_same js_or_def)

lemma step_other:
  assumes "c \<noteq> category d"
  shows "getProp (fst (runningTotalStep d (rt, []))) c = getProp rt c"
  using assms
  by (simp add: runningTotalStep_def Let_def getProp_setProp_other js_add_not_Null)

lemma getProp_emptyObject:
  "c \<notin> set objectPrototypeMembers \<Longrightarrow> getProp emptyObject c = Undefined"
  by (simp add: getProp_def emptyObject_def)

lemma proto_member: "''__proto__'' \<in> set objectPrototypeMembers"
  by (simp add: objectPrototypeMembers_def)



lemma step_same_Num:
  assumes "category d \<noteq> ''__proto__''" and "value d = Num v"
    and "getProp rt (category d) = Num s \<or> (s = 0 \<and> getProp rt (category d) = Undefined)"
  shows "getProp (fst (runningTotalStep d (rt, []))) (category d) = Num (s + v)"
  using assms by (auto simp add: step_same js_or_def)

lemma fold_step_nth_sum:
  assumes "c \<noteq> ''__proto__''"
    and "getProp rt c = Num s \<or> (s = 0 \<and> getProp rt c = Undefined)"
    and "k < length ds" and "category (ds ! k) = c"
    and "\<forall>i \<le> k. category (ds ! i) = c \<longrightarrow> (\<exists>v. value (ds ! i) = Num v)"
  shows "runningTotal (snd (fold runningTotalStep ds (rt, [])) ! k) =
           Num (s + sum_list (map (\<lambda>d. case value d of Num v \<Rightarrow> v | _ \<Rightarrow> 0)
                                (filter (\<lambda>d. category d = c) (take (Suc k) ds))))"
  using assms(2-)
proof (induction ds arbitrary: rt s k)
  case Nil
  then show ?case by simp
next
  case (Cons d ds)
  let ?rt = "fst (runningTotalStep d (rt, []))"
  show ?case
  proof (cases k)
    case 0
    with Cons.prems have cd: "category d = c" and "\<exists>v. value d = Num v"
      by auto
    then obtain v where v: "value d = Num v" by blast
    have "getProp ?rt (category d) = Num (s + v)"
      using step_same_Num [of d v rt s] assms(1) cd v Cons.prems(1) by simp
    then show ?thesis
      unfolding fold_step_Cons step_emits using 0 cd v by simp
  next
    case (Suc k')
    have k': "k' < length ds" and ck': "category (ds ! k') = c"
      using Cons.prems Suc by auto
    have nums: "\<forall>i \<le> k'. category (ds ! i) = c \<longrightarrow> (\<exists>v. value (ds ! i) = Num v)"
    proof (intro allI impI)
      fix i assume "i \<le> k'" and "category (ds ! i) = c"
      then show "\<exists>v. value (ds ! i) = Num v"
        using Cons.prems(4) [rule_format, of "Suc i"] Suc by simp
    qed
    show ?thesis
    proof (cases "category d = c")
      case True
      have "\<exists>v. value d = Num v"
        using Cons.prems(4) [rule_format, of 0] True by simp
      then obtain v where v: "value d = Num v" by blast
      have acc: "getProp ?rt c = Num (s + v)"
        using step_same_Num [of d v rt s] assms(1) True v Cons.prems(1) by simp
      have "runningTotal (snd (fold runningTotalStep ds (?rt, [])) ! k') =
           Num ((s + v) + sum_list (map (\<lambda>d. case value d of Num v \<Rightarrow> v | _ \<Rightarrow> 0)
                                (filter (\<lambda>d. category d = c) (take (Suc k') ds))))"
        by (rule Cons.IH [OF _ k' ck' nums]) (simp add: acc)
      then show ?thesis
        unfolding fold_step_Cons step_emits using Suc True v by (simp add: add.assoc)
    next
      case False
      have acc: "getProp ?rt c = getProp rt c"
        using step_other [of c d rt] False by simp
      have "runningTotal (snd (fold runningTotalStep ds (?rt, [])) ! k') =
           Num (s + sum_list (map (\<lambda>d. case value d of Num v \<Rightarrow> v | _ \<Rightarrow> 0)
                                (filter (\<lambda>d. category d = c) (take (Suc k') ds))))"
        by (rule Cons.IH [OF _ k' ck' nums]) (simp add: acc Cons.prems(1))
      then show ?thesis
        unfolding fold_step_Cons step_emits using Suc False by simp
    qed
  qed
qed

lemma fold_step_frame:
  "map (\<lambda>p. \<lparr>quarter = quarter p, category = category p, value = value p\<rparr>)
     (snd (fold runningTotalStep ds (rt, []))) = ds"
proof (induction ds arbitrary: rt)
  case Nil
  show ?case by simp
next
  case (Cons d ds)
  show ?case
    by (simp only: fold_step_Cons step_emits map_append Cons.IH) simp
qed

text \<open>
  C10. \<open>computeRunningTotals\<close> returns as many records as it is given, and the record
  at each position repeats the quarter, the category and the value of the input record
  at that position: dropping the \<open>runningTotal\<close> field of the output gives back the
  input.
\<close>

theorem computeRunningTotals_frame:
  "length (computeRunningTotals data) = length data \<and>
   map (\<lambda>p. \<lparr>quarter = quarter p, category = category p, value = value p\<rparr>)
     (computeRunningTotals data) = data"
proof -
  let ?F = "\<lambda>p::ProcessedDataPoint. \<lparr>quarter = quarter p, category = category p, value = value p\<rparr>"
  have m: "map ?F (computeRunningTotals data) = data"
    unfolding computeRunningTotals_def by (rule fold_step_frame)
  have "length (computeRunningTotals data) = length (map ?F (computeRunningTotals data))"
    by (simp only: length_map)
  also have "\<dots> = length data"
    by (simp only: m)
  finally show ?thesis using m by simp
qed

theorem computeRunningTotals_frame_witness:
  "map (\<lambda>p. (quarter p, category p, value p))
     (computeRunningTotals
        [\<lparr>quarter = ''2023Q1'', category = ''A'', value = Num 10\<rparr>,
         \<lparr>quarter = ''2023Q2'', category = ''constructor'', value = Str ''n/a''\<rparr>]) =
   [(''2023Q1'', ''A'', Num 10), (''2023Q2'', ''constructor'', Str ''n/a'')]"
proof -
  let ?data = "[\<lparr>quarter = ''2023Q1'', category = ''A'', value = Num 10\<rparr>,
         \<lparr>quarter = ''2023Q2'', category = ''constructor'', value = Str ''n/a''\<rparr>]"
  have "map (\<lambda>p. (quarter p, category p, value p)) (computeRunningTotals ?data) =
      map (\<lambda>d. (quarter d, category d, value d))
        (map (\<lambda>p. \<lparr>quarter = quarter p, category = category p, value = value p\<rparr>)
           (computeRunningTotals ?data))"
    by (simp add: comp_def)
  also have "\<dots> = map (\<lambda>d. (quarter d, category d, value d)) ?data"
    using computeRunningTotals_frame [of ?data] by simp
  finally show ?thesis by simp
qed

lemma fold_step_nth_recurrence:
  assumes "c \<noteq> ''__proto__''" and "k < length ds" and "category (ds ! k) = c"
  shows "((\<forall>i<k. category (ds ! i) \<noteq> c) \<longrightarrow>
            runningTotal (snd (fold runningTotalStep ds (rt, [])) ! k) =
              js_add (js_or (getProp rt c) (Num 0)) (value (ds ! k))) \<and>
         (\<forall>j<k. category (ds ! j) = c \<and> (\<forall>i. j < i \<and> i < k \<longrightarrow> category (ds ! i) \<noteq> c) \<longrightarrow>
            runningTotal (snd (fold runningTotalStep ds (rt, [])) ! k) =
              js_add (js_or (runningTotal (snd (fold runningTotalStep ds (rt, [])) ! j)) (Num 0))
                (value (ds ! k)))"
  using assms(2-)
proof (induction ds arbitrary: rt k)
  case Nil
  then show ?case by simp
next
  case (Cons d ds)
  let ?rt = "fst (runningTotalStep d (rt, []))"
  let ?out = "snd (fold runningTotalStep ds (?rt, []))"
  have out: "snd (fold runningTotalStep (d # ds) (rt, [])) =
      \<lparr>quarter = quarter d, category = category d, value = value d,
        runningTotal = getProp ?rt (category d)\<rparr> # ?out"
    unfolding fold_step_Cons step_emits by simp
  show ?case
  proof (cases k)
    case 0
    then have "category d = c" using Cons.prems by simp
    then show ?thesis
      unfolding out using 0 assms(1) step_same [of d rt] by simp
  next
    case (Suc k')
    have k': "k' < length ds" and ck': "category (ds ! k') = c"
      using Cons.prems Suc by auto
    note ih = Cons.IH [OF k' ck', of ?rt]
    have first: "runningTotal (?out ! k') = js_add (js_or (getProp rt c) (Num 0)) (value (ds ! k'))"
      if "\<forall>i<k. category ((d # ds) ! i) \<noteq> c"
    proof -
      have "category d \<noteq> c" using that [rule_format, of 0] Suc by simp
      then have g: "getProp ?rt c = getProp rt c" using step_other [of c d rt] by simp
      have "\<forall>i<k'. category (ds ! i) \<noteq> c"
        using that Suc by (metis Suc_less_eq nth_Cons_Suc)
      then show ?thesis using ih g by simp
    qed
    have later: "runningTotal (?out ! k') =
          js_add (js_or (runningTotal (snd (fold runningTotalStep (d # ds) (rt, [])) ! j)) (Num 0))
            (value (ds ! k'))"
      if "j < k" and "category ((d # ds) ! j) = c"
        and "\<forall>i. j < i \<and> i < k \<longrightarrow> category ((d # ds) ! i) \<noteq> c" for j
    proof (cases j)
      case 0
      then have cd: "category d = c" using that by simp
      have "\<forall>i<k'. category (ds ! i) \<noteq> c"
      proof (intro allI impI)
        fix i assume "i < k'"
        then show "category (ds ! i) \<noteq> c"
          using that(3) [rule_format, of "Suc i"] 0 Suc by simp
      qed
      then have "runningTotal (?out ! k') = js_add (js_or (getProp ?rt c) (Num 0)) (value (ds ! k'))"
        using ih by simp
      then show ?thesis unfolding out using 0 cd by simp
    next
      case (Suc j')
      have j': "j' < k'" using that(1) Suc \<open>k = Suc k'\<close> by simp
      have cj': "category (ds ! j') = c" using that(2) Suc by simp
      have "\<forall>i. j' < i \<and> i < k' \<longrightarrow> category (ds ! i) \<noteq> c"
      proof (intro allI impI)
        fix i assume "j' < i \<and> i < k'"
        then show "category (ds ! i) \<noteq> c"
          using that(3) [rule_format, of "Suc i"] Suc \<open>k = Suc k'\<close> by simp
      qed
      then have "runningTotal (?out ! k') =
          js_add (js_or (runningTotal (?out ! j')) (Num 0)) (value (ds ! k'))"
        using ih j' cj' by blast
      then show ?thesis unfolding out using Suc by simp
    qed
    have nthk: "snd (fold runningTotalStep (d # ds) (rt, [])) ! k = ?out ! k'"
      unfolding out using Suc by simp
    show ?thesis
      unfolding nthk using first later Suc by simp
  qed
qed

text \<open>
  For a category name that \<open>Object.prototype\<close> does not define, the guard works as an
  initialisation: the first record of the category carries \<open>0 + value\<close>, and a later one
  carries the previous total of its category, or \<open>0\<close> when that total is falsy, plus its
  value.
\<close>

lemma running_total_recurrence:
  assumes "k < length data" and "category (data ! k) \<notin> set objectPrototypeMembers"
  shows "((\<forall>i<k. category (data ! i) \<noteq> category (data ! k)) \<longrightarrow>
            runningTotal (computeRunningTotals data ! k) = js_add (Num 0) (value (data ! k))) \<and>
         (\<forall>j<k. category (data ! j) = category (data ! k) \<and>
                 (\<forall>i. j < i \<and> i < k \<longrightarrow> category (data ! i) \<noteq> category (data ! k)) \<longrightarrow>
            runningTotal (computeRunningTotals data ! k) =
              js_add (js_or (runningTotal (computeRunningTotals data ! j)) (Num 0))
                (value (data ! k)))"
proof -
  let ?c = "category (data ! k)"
  have np: "?c \<noteq> ''__proto__''"
    using assms(2) proto_member by metis
  have u: "getProp emptyObject ?c = Undefined"
    using assms(2) by (rule getProp_emptyObject)
  have rec: "((\<forall>i<k. category (data ! i) \<noteq> ?c) \<longrightarrow>
            runningTotal (snd (fold runningTotalStep data (emptyObject, [])) ! k) =
              js_add (js_or (getProp emptyObject ?c) (Num 0)) (value (data ! k))) \<and>
         (\<forall>j<k. category (data ! j) = ?c \<and> (\<forall>i. j < i \<and> i < k \<longrightarrow> category (data ! i) \<noteq> ?c) \<longrightarrow>
            runningTotal (snd (fold runningTotalStep data (emptyObject, [])) ! k) =
              js_add (js_or (runningTotal (snd (fold runningTotalStep data (emptyObject, [])) ! j)) (Num 0))
                (value (data ! k)))"
    by (rule fold_step_nth_recurrence [OF np assms(1) refl])
  show ?thesis
    using rec by (simp add: computeRunningTotals_def u js_or_def)
qed

text \<open>
  C5 at a category named \<open>toString\<close> whose first value is \<open>0\<close>.
  \<open>runningTotals["toString"]\<close> is the function every object inherits, so the guard
  \<open>!runningTotals[key]\<close> does not fire and the accumulator is never set to \<open>0\<close>:
  \<open>+=\<close> concatenates the function's text and the value. The first record emitted
  carries a string where an accumulator initialised to \<open>0\<close> gives \<open>0 + 0 = 0\<close>, and so
  does the second, where it gives \<open>10\<close>.
\<close>

theorem accumulator_not_initialised:
  "buildDataArray [''2023Q1'', ''2023Q2''] [''toString'']
     \<lparr>values_length = 1, grouped =
        [\<lparr>group_name = ''toString'', group_values = [\<lparr>column_values = [Num 0, Num 10]\<rparr>]\<rparr>]\<rparr> =
     Inr [\<lparr>quarter = ''2023Q1'', category = ''toString'', value = Num 0\<rparr>,
          \<lparr>quarter = ''2023Q2'', category = ''toString'', value = Num 10\<rparr>] \<and>
   getProp emptyObject ''toString'' = Opaque \<and>
   truthy (getProp emptyObject ''toString'') \<and>
   computeRunningTotals
     [\<lparr>quarter = ''2023Q1'', category = ''toString'', value = Num 0\<rparr>,
      \<lparr>quarter = ''2023Q2'', category = ''toString'', value = Num 10\<rparr>] =
     [\<lparr>quarter = ''2023Q1'', category = ''toString'', value = Num 0, runningTotal = Opaque\<rparr>,
      \<lparr>quarter = ''2023Q2'', category = ''toString'', value = Num 10, runningTotal = Opaque\<rparr>] \<and>
   js_add (Num 0) (Num 0) = Num 0 \<and>
   js_add (js_add (Num 0) (Num 0)) (Num 10) = Num 10"
  by code_simp

lemma computeRunningTotals_length: "length (computeRunningTotals data) = length data"
proof -
  have "length (map (\<lambda>p. \<lparr>quarter = quarter p, category = category p, value = value p\<rparr>)
     (computeRunningTotals data)) = length data"
    unfolding computeRunningTotals_def by (simp only: fold_step_frame)
  then show ?thesis by simp
qed

lemma computeRunningTotals_nth_frame:
  assumes "k < length data"
  shows "quarter (computeRunningTotals data ! k) = quarter (data ! k) \<and>
         category (computeRunningTotals data ! k) = category (data ! k) \<and>
         value (computeRunningTotals data ! k) = value (data ! k)"
proof -
  let ?F = "\<lambda>p::ProcessedDataPoint. \<lparr>quarter = quarter p, category = category p, value = value p\<rparr>"
  have m: "map ?F (computeRunningTotals data) = data"
    unfolding computeRunningTotals_def by (rule fold_step_frame)
  have "?F (computeRunningTotals data ! k) = map ?F (computeRunningTotals data) ! k"
    using assms by (simp add: computeRunningTotals_length)
  then have "?F (computeRunningTotals data ! k) = data ! k"
    by (simp only: m)
  then show ?thesis
    by (metis DataPoint.select_convs(1) DataPoint.select_convs(2) DataPoint.select_convs(3))
qed

lemma computeRunningTotals_nth_sum:
  assumes "k < length data" and "category (data ! k) = c" and "c \<notin> set objectPrototypeMembers"
    and "\<forall>d\<in>set data. category d = c \<longrightarrow> (\<exists>v. value d = Num v)"
  shows "runningTotal (computeRunningTotals data ! k) = Num (categorySum c (take (Suc k) data))"
proof -
  have np: "c \<noteq> ''__proto__''"
    using assms(3) proto_member by metis
  have u: "getProp emptyObject c = Undefined"
    using assms(3) by (rule getProp_emptyObject)
  have nums: "\<forall>i\<le>k. category (data ! i) = c \<longrightarrow> (\<exists>v. value (data ! i) = Num v)"
    using assms(1,4) by (auto simp: all_set_conv_all_nth)
  have "runningTotal (snd (fold runningTotalStep data (emptyObject, [])) ! k) =
           Num (0 + sum_list (map (\<lambda>d. case value d of Num v \<Rightarrow> v | _ \<Rightarrow> 0)
                                (filter (\<lambda>d. category d = c) (take (Suc k) data))))"
    by (rule fold_step_nth_sum [OF np _ assms(1,2) nums]) (simp add: u)
  then show ?thesis
    by (simp add: computeRunningTotals_def categorySum_def numericValue_def)
qed

lemma categorySum_append: "categorySum c (xs @ ys) = categorySum c xs + categorySum c ys"
  by (simp add: categorySum_def)

lemma categorySum_nonneg:
  assumes "\<forall>d\<in>set ds. category d = c \<longrightarrow> (\<exists>v. value d = Num v \<and> 0 \<le> v)"
  shows "0 \<le> categorySum c ds"
  unfolding categorySum_def
proof (rule sum_list_nonneg)
  fix x assume "x \<in> set (map (\<lambda>d. numericValue (value d)) (filter (\<lambda>d. category d = c) ds))"
  then obtain d where "d \<in> set ds" and "category d = c" and x: "x = numericValue (value d)"
    by auto
  then obtain v where "value d = Num v" and "0 \<le> v" using assms by blast
  then show "0 \<le> x" by (simp add: x numericValue_def)
qed

lemma categorySum_take_mono:
  assumes "\<forall>d\<in>set ds. category d = c \<longrightarrow> (\<exists>v. value d = Num v \<and> 0 \<le> v)" and "m \<le> n"
  shows "categorySum c (take m ds) \<le> categorySum c (take n ds)"
proof -
  have "take n ds = take m ds @ take (n - m) (drop m ds)"
    using assms(2) take_add [of m "n - m" ds] by simp
  moreover have "0 \<le> categorySum c (take (n - m) (drop m ds))"
  proof (rule categorySum_nonneg, intro ballI impI)
    fix d assume "d \<in> set (take (n - m) (drop m ds))" and "category d = c"
    then have "d \<in> set ds" by (meson in_set_dropD in_set_takeD)
    then show "\<exists>v. value d = Num v \<and> 0 \<le> v" using assms(1) \<open>category d = c\<close> by blast
  qed
  ultimately show ?thesis by (simp add: categorySum_append)
qed

lemma categorySum_take_last:
  assumes "\<forall>i. k < i \<and> i < length ds \<longrightarrow> category (ds ! i) \<noteq> c"
  shows "categorySum c (take (Suc k) ds) = categorySum c ds"
proof -
  have "filter (\<lambda>d. category d = c) (drop (Suc k) ds) = []"
  proof (rule filter_False, intro ballI)
    fix d assume "d \<in> set (drop (Suc k) ds)"
    then obtain i where "i < length (drop (Suc k) ds)" and "d = drop (Suc k) ds ! i"
      by (metis in_set_conv_nth)
    then have "d = ds ! (Suc k + i)" and "Suc k + i < length ds" by auto
    then show "\<not> category d = c" using assms by simp
  qed
  then have "categorySum c (drop (Suc k) ds) = 0" by (simp add: categorySum_def)
  moreover have "ds = take (Suc k) ds @ drop (Suc k) ds" by simp
  ultimately show ?thesis by (metis categorySum_append add.right_neutral)
qed

lemma running_totals_nondecreasing:
  assumes "c \<notin> set objectPrototypeMembers"
    and "\<forall>d\<in>set data. category d = c \<longrightarrow> (\<exists>v. value d = Num v \<and> 0 \<le> v)"
    and "j \<le> k" and "k < length data" and "category (data ! j) = c" and "category (data ! k) = c"
  shows "\<exists>a b. runningTotal (computeRunningTotals data ! j) = Num a \<and>
               runningTotal (computeRunningTotals data ! k) = Num b \<and> a \<le> b"
proof -
  have nums: "\<forall>d\<in>set data. category d = c \<longrightarrow> (\<exists>v. value d = Num v)"
    using assms(2) by blast
  have a: "runningTotal (computeRunningTotals data ! j) = Num (categorySum c (take (Suc j) data))"
    using assms by (intro computeRunningTotals_nth_sum nums) auto
  have b: "runningTotal (computeRunningTotals data ! k) = Num (categorySum c (take (Suc k) data))"
    using assms by (intro computeRunningTotals_nth_sum nums) auto
  have "categorySum c (take (Suc j) data) \<le> categorySum c (take (Suc k) data)"
    using assms(2,3) by (intro categorySum_take_mono) auto
  then show ?thesis using a b by blast
qed

lemma running_total_last_is_sum:
  assumes "c \<notin> set objectPrototypeMembers"
    and "\<forall>d\<in>set data. category d = c \<longrightarrow> (\<exists>v. value d = Num v)"
    and "k < length data" and "category (data ! k) = c"
    and "\<forall>i. k < i \<and> i < length data \<longrightarrow> category (data ! i) \<noteq> c"
  shows "runningTotal (computeRunningTotals data ! k) = Num (categorySum c data)"
  using computeRunningTotals_nth_sum [OF assms(3,4,1,2)] categorySum_take_last [OF assms(5)]
  by simp

text \<open>
  C2 at a category named \<open>constructor\<close>, with the non-negative values 1 and 2.
  \<open>runningTotals["constructor"]\<close> is the function every object inherits, so the guard
  \<open>!runningTotals[key]\<close> does not fire, the accumulator is never set to \<open>0\<close>, and
  \<open>+=\<close> concatenates: both running totals are strings, not the numbers 1 and 3. For
  every category name that \<open>Object.prototype\<close> does not define, the running totals are
  non-decreasing when the values are non-negative numbers, and the last one is the sum
  (\<open>running_totals_nondecreasing\<close>, \<open>running_total_last_is_sum\<close>).
\<close>

theorem running_totals_inherited_name:
  "buildDataArray [''2023Q1'', ''2023Q2''] [''constructor'']
     \<lparr>values_length = 1, grouped =
        [\<lparr>group_name = ''constructor'', group_values = [\<lparr>column_values = [Num 1, Num 2]\<rparr>]\<rparr>]\<rparr> =
     Inr [\<lparr>quarter = ''2023Q1'', category = ''constructor'', value = Num 1\<rparr>,
          \<lparr>quarter = ''2023Q2'', category = ''constructor'', value = Num 2\<rparr>] \<and>
   map runningTotal (computeRunningTotals
     [\<lparr>quarter = ''2023Q1'', category = ''constructor'', value = Num 1\<rparr>,
      \<lparr>quarter = ''2023Q2'', category = ''constructor'', value = Num 2\<rparr>]) = [Opaque, Opaque]"
  by code_simp

section \<open>\<open>transformToStackedData\<close>\<close>

lemma own_setProp_same:
  "k \<noteq> ''__proto__'' \<Longrightarrow> map_of (props (setProp obj k v)) k = Some v"
  by (simp add: setProp_def AList.update_conv')

lemma own_setProp_other:
  "c \<noteq> k \<Longrightarrow> map_of (props (setProp obj k v)) c = map_of (props obj) c"
  by (simp add: setProp_def AList.update_conv')

lemma own_fold_stackField:
  assumes "c \<noteq> ''__proto__''"
  shows "map_of (props (fold (stackField processedData q) cats dataPoint)) c =
           (if c \<in> set cats
            then Some (case find (\<lambda>d. quarter d = q \<and> category d = c) processedData of
                         Some filteredData \<Rightarrow> runningTotal filteredData
                       | None \<Rightarrow> Num 0)
            else map_of (props dataPoint) c)"
proof (induction cats arbitrary: dataPoint)
  case Nil
  show ?case by simp
next
  case (Cons k cats)
  have step: "map_of (props (fold (stackField processedData q) (k # cats) dataPoint)) c =
      (if c \<in> set cats
            then Some (case find (\<lambda>d. quarter d = q \<and> category d = c) processedData of
                         Some filteredData \<Rightarrow> runningTotal filteredData
                       | None \<Rightarrow> Num 0)
            else map_of (props (stackField processedData q k dataPoint)) c)"
    using Cons.IH [of "stackField processedData q k dataPoint"] by simp
  show ?case
  proof (cases "c = k")
    case True
    have "map_of (props (stackField processedData q k dataPoint)) c =
        Some (case find (\<lambda>d. quarter d = q \<and> category d = c) processedData of
                         Some filteredData \<Rightarrow> runningTotal filteredData
                       | None \<Rightarrow> Num 0)"
      using assms True by (simp add: stackField_def own_setProp_same)
    then show ?thesis
      unfolding step using True by simp
  next
    case False
    have "map_of (props (stackField processedData q k dataPoint)) c = map_of (props dataPoint) c"
      using False by (simp add: stackField_def own_setProp_other)
    then show ?thesis
      unfolding step using False by simp
  qed
qed

lemma stackRecord_field:
  assumes "c \<in> set seriesCategories" and "c \<noteq> ''__proto__''"
  shows "getProp (stackRecord processedData seriesCategories q) c =
           (case find (\<lambda>d. quarter d = q \<and> category d = c) processedData of
              Some filteredData \<Rightarrow> runningTotal filteredData
            | None \<Rightarrow> Num 0)"
  using assms own_fold_stackField [OF assms(2), of processedData q seriesCategories]
  by (simp add: getProp_def stackRecord_def)

lemma find_first_index:
  assumes "k < length xs" and "P (xs ! k)" and "\<forall>j<k. \<not> P (xs ! j)"
  shows "find P xs = Some (xs ! k)"
  using assms by (auto simp: find_Some_iff)

lemma find_none:
  assumes "\<forall>x\<in>set xs. \<not> P x"
  shows "find P xs = None"
  using assms by (simp add: find_None_iff)


text \<open>
  C9, as amended. \<open>transformToStackedData\<close> emits one record per element of the period
  list, so equal labels give equal records at each of their positions. In the record of a
  period, the field of a category of the list (other than \<open>__proto__\<close>) is the running
  total of the first \<open>ProcessedDataPoint\<close>, in sequence order, with that period and
  category, and \<open>0\<close> when there is none. That first running total is the earliest, not
  the last; it is the smallest among the duplicates when the sequence comes from
  \<open>computeRunningTotals\<close>, the category's values are non-negative numbers, and the
  category name is not a member of \<open>Object.prototype\<close>.
\<close>

theorem transformToStackedData_first_match:
  assumes "i < length quarters" and "c \<in> set seriesCategories" and "c \<noteq> ''__proto__''"
  shows
    "length (transformToStackedData processedData quarters seriesCategories) = length quarters \<and>
     (\<forall>i'<length quarters. quarters ! i' = quarters ! i \<longrightarrow>
        transformToStackedData processedData quarters seriesCategories ! i' =
        transformToStackedData processedData quarters seriesCategories ! i) \<and>
     (\<forall>k<length processedData.
        quarter (processedData ! k) = quarters ! i \<and> category (processedData ! k) = c \<and>
        (\<forall>j<k. \<not> (quarter (processedData ! j) = quarters ! i \<and> category (processedData ! j) = c))
        \<longrightarrow> getProp (transformToStackedData processedData quarters seriesCategories ! i) c =
              runningTotal (processedData ! k)) \<and>
     ((\<forall>p\<in>set processedData. \<not> (quarter p = quarters ! i \<and> category p = c)) \<longrightarrow>
        getProp (transformToStackedData processedData quarters seriesCategories ! i) c = Num 0) \<and>
     (c \<notin> set objectPrototypeMembers \<and>
      (\<forall>d\<in>set data. category d = c \<longrightarrow> (\<exists>v. value d = Num v \<and> 0 \<le> v)) \<longrightarrow>
        (\<forall>k<length data. quarter (data ! k) = quarters ! i \<and> category (data ! k) = c \<longrightarrow>
           (\<exists>a b. getProp (transformToStackedData (computeRunningTotals data) quarters
                           seriesCategories ! i) c = Num a \<and>
                  runningTotal (computeRunningTotals data ! k) = Num b \<and> a \<le> b)))"
proof -
  let ?q = "quarters ! i"
  have field: "getProp (transformToStackedData pd quarters seriesCategories ! i) c =
      (case find (\<lambda>d. quarter d = ?q \<and> category d = c) pd of
         Some filteredData \<Rightarrow> runningTotal filteredData | None \<Rightarrow> Num 0)" for pd
    using assms by (simp add: transformToStackedData_def stackRecord_field)
  have len: "length (transformToStackedData processedData quarters seriesCategories) = length quarters"
    by (simp add: transformToStackedData_def)
  have dup: "\<forall>i'<length quarters. quarters ! i' = quarters ! i \<longrightarrow>
        transformToStackedData processedData quarters seriesCategories ! i' =
        transformToStackedData processedData quarters seriesCategories ! i"
    using assms(1) by (simp add: transformToStackedData_def)
  have first: "getProp (transformToStackedData pd quarters seriesCategories ! i) c =
              runningTotal (pd ! k)"
    if "k < length pd" and "quarter (pd ! k) = ?q \<and> category (pd ! k) = c"
      and "\<forall>j<k. \<not> (quarter (pd ! j) = ?q \<and> category (pd ! j) = c)" for k pd
  proof -
    have "find (\<lambda>d. quarter d = ?q \<and> category d = c) pd = Some (pd ! k)"
      by (rule find_first_index [OF that(1)]) (use that in auto)
    then show ?thesis by (simp add: field)
  qed
  have none: "getProp (transformToStackedData processedData quarters seriesCategories ! i) c = Num 0"
    if "\<forall>p\<in>set processedData. \<not> (quarter p = ?q \<and> category p = c)"
  proof -
    have "find (\<lambda>d. quarter d = ?q \<and> category d = c) processedData = None"
      by (rule find_none) (use that in auto)
    then show ?thesis by (simp add: field)
  qed
  have least: "\<exists>a b. getProp (transformToStackedData (computeRunningTotals data) quarters
                           seriesCategories ! i) c = Num a \<and>
                  runningTotal (computeRunningTotals data ! k) = Num b \<and> a \<le> b"
    if m: "c \<notin> set objectPrototypeMembers"
      and nn: "\<forall>d\<in>set data. category d = c \<longrightarrow> (\<exists>v. value d = Num v \<and> 0 \<le> v)"
      and k: "k < length data" and qk: "quarter (data ! k) = ?q" and ck: "category (data ! k) = c"
    for k
  proof -
    let ?P = "\<lambda>n. n < length data \<and> quarter (data ! n) = ?q \<and> category (data ! n) = c"
    define k0 where "k0 = (LEAST n. ?P n)"
    have Pk: "?P k" using k qk ck by simp
    have P0: "?P k0" unfolding k0_def by (rule LeastI [of ?P, OF Pk])
    have le: "k0 \<le> k" unfolding k0_def by (rule Least_le [of ?P, OF Pk])
    have before: "\<forall>j<k0. \<not> ?P j"
      unfolding k0_def using not_less_Least by blast
    let ?pd = "computeRunningTotals data"
    have fr: "quarter (?pd ! n) = quarter (data ! n) \<and> category (?pd ! n) = category (data ! n)"
      if "n < length data" for n
      using computeRunningTotals_nth_frame [OF that] by simp
    have k0len: "k0 < length ?pd"
      using P0 by (simp add: computeRunningTotals_length)
    have "getProp (transformToStackedData ?pd quarters seriesCategories ! i) c =
        runningTotal (?pd ! k0)"
    proof (rule first [OF k0len])
      show "quarter (?pd ! k0) = ?q \<and> category (?pd ! k0) = c"
        using P0 fr [of k0] by simp
      show "\<forall>j<k0. \<not> (quarter (?pd ! j) = ?q \<and> category (?pd ! j) = c)"
      proof (intro allI impI)
        fix j assume j: "j < k0"
        then have "j < length data" using P0 by simp
        then show "\<not> (quarter (?pd ! j) = ?q \<and> category (?pd ! j) = c)"
          using before j fr [of j] by simp
      qed
    qed
    moreover have "\<exists>a b. runningTotal (?pd ! k0) = Num a \<and> runningTotal (?pd ! k) = Num b \<and> a \<le> b"
      by (rule running_totals_nondecreasing [OF m nn le k]) (use P0 ck in auto)
    ultimately show ?thesis by auto
  qed
  show ?thesis
    using len dup first [of _ processedData] none least by blast
qed

text \<open>
  C9 as stated fails: with the period \<open>2023Q1\<close> listed twice and the values 5 and -3,
  the running totals of the duplicates are 5 and 2; the field holds the first, 5, which
  is not the smallest.
\<close>

theorem transformToStackedData_first_match_counterexample:
  "buildDataArray [''2023Q1'', ''2023Q1''] [''A'']
     \<lparr>values_length = 1, grouped =
        [\<lparr>group_name = ''A'', group_values = [\<lparr>column_values = [Num 5, Num (- 3)]\<rparr>]\<rparr>]\<rparr> =
     Inr [\<lparr>quarter = ''2023Q1'', category = ''A'', value = Num 5\<rparr>,
          \<lparr>quarter = ''2023Q1'', category = ''A'', value = Num (- 3)\<rparr>] \<and>
   computeRunningTotals
     [\<lparr>quarter = ''2023Q1'', category = ''A'', value = Num 5\<rparr>,
      \<lparr>quarter = ''2023Q1'', category = ''A'', value = Num (- 3)\<rparr>] =
     [\<lparr>quarter = ''2023Q1'', category = ''A'', value = Num 5, runningTotal = Num 5\<rparr>,
      \<lparr>quarter = ''2023Q1'', category = ''A'', value = Num (- 3), runningTotal = Num 2\<rparr>] \<and>
   getProp (transformToStackedData
      [\<lparr>quarter = ''2023Q1'', category = ''A'', value = Num 5, runningTotal = Num 5\<rparr>,
       \<lparr>quarter = ''2023Q1'', category = ''A'', value = Num (- 3), runningTotal = Num 2\<rparr>]
      [''2023Q1'', ''2023Q1''] [''A''] ! 0) ''A'' = Num 5 \<and>
   (2::real) < 5"
  by code_simp

theorem transformToStackedData_first_match_witness:
  "length (transformToStackedData
      (computeRunningTotals
         [\<lparr>quarter = ''2023Q1'', category = ''A'', value = Num 5\<rparr>,
          \<lparr>quarter = ''2023Q1'', category = ''A'', value = Num 3\<rparr>])
      [''2023Q1'', ''2023Q1''] [''A'']) = 2 \<and>
   transformToStackedData
      (computeRunningTotals
         [\<lparr>quarter = ''2023Q1'', category = ''A'', value = Num 5\<rparr>,
          \<lparr>quarter = ''2023Q1'', category = ''A'', value = Num 3\<rparr>])
      [''2023Q1'', ''2023Q1''] [''A''] ! 1 =
   transformToStackedData
      (computeRunningTotals
         [\<lparr>quarter = ''2023Q1'', category = ''A'', value = Num 5\<rparr>,
          \<lparr>quarter = ''2023Q1'', category = ''A'', value = Num 3\<rparr>])
      [''2023Q1'', ''2023Q1''] [''A''] ! 0 \<and>
   (\<exists>a b. getProp (transformToStackedData
               (computeRunningTotals
                  [\<lparr>quarter = ''2023Q1'', category = ''A'', value = Num 5\<rparr>,
                   \<lparr>quarter = ''2023Q1'', category = ''A'', value = Num 3\<rparr>])
               [''2023Q1'', ''2023Q1''] [''A''] ! 0) ''A'' = Num a \<and>
          runningTotal (computeRunningTotals
                  [\<lparr>quarter = ''2023Q1'', category = ''A'', value = Num 5\<rparr>,
                   \<lparr>quarter = ''2023Q1'', category = ''A'', value = Num 3\<rparr>] ! 1) = Num b \<and>
          a \<le> b)"
proof -
  let ?data = "[\<lparr>quarter = ''2023Q1'', category = ''A'', value = Num 5\<rparr>,
                \<lparr>quarter = ''2023Q1'', category = ''A'', value = Num 3\<rparr>]"
  let ?qs = "[''2023Q1'', ''2023Q1'']"
  have h1: "0 < length ?qs" by simp
  have h2: "''A'' \<in> set [''A'']" by simp
  have h3: "''A'' \<noteq> ''__proto__''" by simp
  note inst = transformToStackedData_first_match [OF h1 h2 h3,
      of "computeRunningTotals ?data" ?data]
  have "length (transformToStackedData (computeRunningTotals ?data) ?qs [''A'']) = length ?qs"
    by (rule inst [THEN conjunct1])
  then have len: "length (transformToStackedData (computeRunningTotals ?data) ?qs [''A'']) = 2"
    by simp
  have i1: "(1::nat) < length ?qs" by simp
  have q1: "?qs ! 1 = ?qs ! 0" by simp
  have dup: "transformToStackedData (computeRunningTotals ?data) ?qs [''A''] ! 1 =
             transformToStackedData (computeRunningTotals ?data) ?qs [''A''] ! 0"
    by (rule inst [THEN conjunct2, THEN conjunct1, rule_format, OF i1 q1])
  have m: "''A'' \<notin> set objectPrototypeMembers"
    by (simp add: objectPrototypeMembers_def)
  have nn: "\<forall>d\<in>set ?data. category d = ''A'' \<longrightarrow> (\<exists>v. value d = Num v \<and> 0 \<le> v)"
    by simp
  have k1: "(1::nat) < length ?data" by simp
  have p1: "quarter (?data ! 1) = ?qs ! 0 \<and> category (?data ! 1) = ''A''" by simp
  have least: "\<exists>a b. getProp (transformToStackedData (computeRunningTotals ?data) ?qs [''A''] ! 0) ''A''
                     = Num a \<and>
                  runningTotal (computeRunningTotals ?data ! 1) = Num b \<and> a \<le> b"
    by (rule inst [THEN conjunct2, THEN conjunct2, THEN conjunct2, THEN conjunct2, rule_format,
          OF conjI [OF m nn] k1 p1])
  show ?thesis
    by (intro conjI len dup least)
qed

section \<open>\<open>update\<close>\<close>

lemma js_or_Num_zero: "js_or (Num x) (Num 0) = Num x"
  by (simp add: js_or_def)

lemma stackTotal_fold_Num:
  assumes "\<forall>c\<in>set cats. \<exists>x. getProp d c = Num x"
  shows "fold (\<lambda>cat total. js_add total (js_or (getProp d cat) (Num 0))) cats (Num s) =
           Num (s + sum_list (map (\<lambda>c. numericValue (getProp d c)) cats))"
  using assms
proof (induction cats arbitrary: s)
  case Nil
  show ?case by simp
next
  case (Cons c cats)
  from Cons.prems obtain x where x: "getProp d c = Num x" by auto
  have "fold (\<lambda>cat total. js_add total (js_or (getProp d cat) (Num 0))) cats (Num (s + x)) =
           Num ((s + x) + sum_list (map (\<lambda>c. numericValue (getProp d c)) cats))"
    using Cons.IH [of "s + x"] Cons.prems by simp
  then show ?case
    by (simp add: x js_or_Num_zero numericValue_def add.assoc)
qed

lemma stackTotal_Num:
  assumes "\<forall>c\<in>set cats. \<exists>x. getProp d c = Num x"
  shows "stackTotal cats d = Num (sum_list (map (\<lambda>c. numericValue (getProp d c)) cats))"
  using stackTotal_fold_Num [OF assms, of 0] by (simp add: stackTotal_def)

lemma d3_max_loop_Num:
  "d3_max_loop (Num y) (map Num xs) = Some (Num (fold max xs y))"
proof (induction xs arbitrary: y)
  case Nil
  show ?case by simp
next
  case (Cons x xs)
  show ?case
  proof (cases "y < x")
    case True
    then have "max x y = x" by simp
    then show ?thesis using Cons.IH [of x] True by simp
  next
    case False
    then have "max x y = y" by simp
    then show ?thesis using Cons.IH [of y] False by simp
  qed
qed

lemma d3_max_Num:
  "d3_max (map Num xs) = (if xs = [] then Some Undefined else Some (Num (Max (set xs))))"
proof (cases xs)
  case Nil
  then show ?thesis by (simp add: d3_max_def)
next
  case (Cons x xs')
  then show ?thesis
    by (simp add: d3_max_def d3_max_loop_Num Max.set_eq_fold del: set_simps)
qed

lemma update_yDomain:
  assumes "fst (update cmp target options) = [chart]"
  shows "yDomain chart = map_option (\<lambda>m. (Num 0, m)) (maxY (chart_data chart) (stackKeys chart))"
  using assms
  by (auto simp add: update_def Let_def split: list.splits option.splits sum.splits if_splits)

text \<open>
  C8. When every record has a number in the field of every category, \<open>maxY\<close> is the
  greatest, over the records, of the sum of the record's category fields, and \<open>0\<close> when
  there is no record; when that maximum is \<open>0\<close> or there is no record, the vertical
  domain \<open>[0, maxY]\<close> is \<open>[0, 0]\<close>. The chart that \<open>update\<close> draws has
  exactly this domain, computed from the chart's own records and categories.
\<close>

theorem maxY_max_of_stack_totals:
  assumes "\<forall>d\<in>set stackedData. \<forall>c\<in>set seriesCategories. \<exists>x. getProp d c = Num x"
  shows "maxY stackedData seriesCategories =
           Some (Num (if stackedData = [] then 0
                      else Max (set (map (\<lambda>d. sum_list (map (\<lambda>c. numericValue (getProp d c))
                                                            seriesCategories)) stackedData)))) \<and>
         (stackedData = [] \<or>
            Max (set (map (\<lambda>d. sum_list (map (\<lambda>c. numericValue (getProp d c)) seriesCategories))
                       stackedData)) = 0
          \<longrightarrow> map_option (\<lambda>m. (Num 0, m)) (maxY stackedData seriesCategories) =
                Some (Num 0, Num 0)) \<and>
         (fst (update cmp target options) = [chart] \<longrightarrow>
            yDomain chart =
              map_option (\<lambda>m. (Num 0, m)) (maxY (chart_data chart) (stackKeys chart)))"
proof -
  let ?t = "\<lambda>d. sum_list (map (\<lambda>c. numericValue (getProp d c)) seriesCategories)"
  have "map (stackTotal seriesCategories) stackedData = map (\<lambda>d. Num (?t d)) stackedData"
    using assms by (intro map_cong refl stackTotal_Num) simp
  then have m: "map (stackTotal seriesCategories) stackedData = map Num (map ?t stackedData)"
    by (simp add: comp_def)
  have y: "maxY stackedData seriesCategories =
      Some (Num (if stackedData = [] then 0 else Max (set (map ?t stackedData))))"
    unfolding maxY_def m d3_max_Num by (simp add: js_or_def)
  have d: "fst (update cmp target options) = [chart] \<longrightarrow>
            yDomain chart =
              map_option (\<lambda>m. (Num 0, m)) (maxY (chart_data chart) (stackKeys chart))"
    using update_yDomain [of cmp target options chart] by blast
  have z: "stackedData = [] \<or> Max (set (map ?t stackedData)) = 0
          \<longrightarrow> map_option (\<lambda>m. (Num 0, m)) (maxY stackedData seriesCategories) =
                Some (Num 0, Num 0)"
    unfolding y by auto
  show ?thesis
    by (intro conjI y z d)
qed

theorem maxY_max_of_stack_totals_witness:
  "maxY [\<lparr>props = [(''quarter'', Str ''2023Q1''), (''A'', Num 10), (''B'', Num 3)],
          hasPrototype = True\<rparr>,
         \<lparr>props = [(''quarter'', Str ''2023Q2''), (''A'', Num 15), (''B'', Num 10)],
          hasPrototype = True\<rparr>] [''A'', ''B''] = Some (Num 25) \<and>
   map_option (\<lambda>m. (Num 0, m)) (maxY [] [''A'', ''B'']) = Some (Num 0, Num 0)"
proof -
  let ?r1 = "\<lparr>props = [(''quarter'', Str ''2023Q1''), (''A'', Num 10), (''B'', Num 3)],
          hasPrototype = True\<rparr>"
  let ?r2 = "\<lparr>props = [(''quarter'', Str ''2023Q2''), (''A'', Num 15), (''B'', Num 10)],
          hasPrototype = True\<rparr>"
  have h: "\<forall>d\<in>set [?r1, ?r2]. \<forall>c\<in>set [''A'', ''B'']. \<exists>x. getProp d c = Num x"
    by (simp add: getProp_def)
  have a: "maxY [?r1, ?r2] [''A'', ''B''] = Some (Num 25)"
    using maxY_max_of_stack_totals [OF h, THEN conjunct1]
    by (simp add: getProp_def numericValue_def)
  have h0: "\<forall>d\<in>set ([]::StackedDataPoint list). \<forall>c\<in>set [''A'', ''B'']. \<exists>x. getProp d c = Num x"
    by simp
  have b: "map_option (\<lambda>m. (Num 0, m)) (maxY [] [''A'', ''B'']) = Some (Num 0, Num 0)"
    using maxY_max_of_stack_totals [OF h0, THEN conjunct2, THEN conjunct1] by simp
  show ?thesis using a b by simp
qed

lemma js_or_coerced_cell:
  "js_or (array_get (map (\<lambda>cell. js_or cell (Num 0)) cells) i) (Num 0) =
   js_or (array_get cells i) (Num 0)"
  by (simp add: array_get_def js_or_def)

lemma innerLoop_coerced:
  "innerLoop quarters cat
     (map_option (\<lambda>col. col\<lparr>column_values := map (\<lambda>cell. js_or cell (Num 0)) (column_values col)\<rparr>)
        valueColumn) i data =
   innerLoop quarters cat valueColumn i data"
proof (cases valueColumn)
  case None
  then show ?thesis by simp
next
  case (Some col)
  then show ?thesis
    by (simp add: innerLoop_Some js_or_coerced_cell)
qed

lemma outerLoop_coerced:
  "outerLoop quarters seriesCategories
     (map (\<lambda>g. g\<lparr>group_values :=
              map (\<lambda>col. col\<lparr>column_values := map (\<lambda>cell. js_or cell (Num 0)) (column_values col)\<rparr>)
                (group_values g)\<rparr>) groups) j data =
   outerLoop quarters seriesCategories groups j data"
proof (induction quarters seriesCategories groups j data rule: outerLoop.induct)
  case (1 quarters seriesCategories groups j data)
  let ?fc = "\<lambda>col. col\<lparr>column_values := map (\<lambda>cell. js_or cell (Num 0)) (column_values col)\<rparr>"
  let ?fg = "\<lambda>g. g\<lparr>group_values := map ?fc (group_values g)\<rparr>"
  show ?case
  proof (cases "j < length seriesCategories \<and> j < length groups")
    case False
    then show ?thesis
      by (auto simp add: outerLoop.simps [of quarters seriesCategories "map ?fg groups" j data]
          outerLoop.simps [of quarters seriesCategories groups j data])
  next
    case True
    have col: "(case group_values (map ?fg groups ! j) of [] \<Rightarrow> None | col # x \<Rightarrow> Some col) =
        map_option ?fc (case group_values (groups ! j) of [] \<Rightarrow> None | col # x \<Rightarrow> Some col)"
      using True by (cases "group_values (groups ! j)") auto
    have inner: "innerLoop quarters (seriesCategories ! j)
           (case group_values (map ?fg groups ! j) of [] \<Rightarrow> None | col # x \<Rightarrow> Some col) 0 data =
         innerLoop quarters (seriesCategories ! j)
           (case group_values (groups ! j) of [] \<Rightarrow> None | col # x \<Rightarrow> Some col) 0 data"
      unfolding col by (rule innerLoop_coerced)
    show ?thesis
    proof (cases "innerLoop quarters (seriesCategories ! j)
           (case group_values (groups ! j) of [] \<Rightarrow> None | col # x \<Rightarrow> Some col) 0 data")
      case (Inl e)
      then show ?thesis
        using True inner
        by (simp add: outerLoop.simps [of quarters seriesCategories "map ?fg groups" j data]
            outerLoop.simps [of quarters seriesCategories groups j data])
    next
      case (Inr data')
      have ih: "outerLoop quarters seriesCategories (map ?fg groups) (Suc j) data' =
          outerLoop quarters seriesCategories groups (Suc j) data'"
        using "1.IH" [of data'] True Inr by simp
      show ?thesis
        using True inner Inr ih
        by (simp add: outerLoop.simps [of quarters seriesCategories "map ?fg groups" j data]
            outerLoop.simps [of quarters seriesCategories groups j data])
    qed
  qed
qed

lemma buildDataArray_coerced:
  "buildDataArray quarters seriesCategories (withCellsCoerced vals) =
   buildDataArray quarters seriesCategories vals"
  by (simp add: buildDataArray_def withCellsCoerced_def outerLoop_coerced)

lemma update_coerced:
  "update cmp target
     \<lparr>dataViews = \<lparr>categorical = Some \<lparr>categories = cats,
                     categorical_values = Some (withCellsCoerced vals)\<rparr>\<rparr> # rest,
      viewport_width = w, viewport_height = h\<rparr> =
   update cmp target
     \<lparr>dataViews = \<lparr>categorical = Some \<lparr>categories = cats,
                     categorical_values = Some vals\<rparr>\<rparr> # rest,
      viewport_width = w, viewport_height = h\<rparr>"
proof -
  have n: "map group_name (grouped (withCellsCoerced vals)) = map group_name (grouped vals)"
    by (simp add: withCellsCoerced_def comp_def)
  have l: "values_length (withCellsCoerced vals) = values_length vals"
    by (simp add: withCellsCoerced_def)
  show ?thesis
    by (cases cats)
      (auto simp add: update_def n l buildDataArray_coerced Let_def split: sum.splits)
qed

lemma update_no_data:
  assumes "dataViews options = [] \<or> categorical (dataViews options ! 0) = None \<or>
     (\<exists>cat. categorical (dataViews options ! 0) = Some cat \<and>
        (categories cat = None \<or> categories cat = Some [] \<or> categorical_values cat = None \<or>
         (\<exists>vals. categorical_values cat = Some vals \<and> values_length vals = 0)))"
  shows "update cmp target options = ([], None)"
proof (cases "dataViews options")
  case Nil
  then show ?thesis by (simp add: update_def)
next
  case (Cons dv rest)
  then have dv: "dataViews options ! 0 = dv" by simp
  show ?thesis
  proof (cases "categorical dv")
    case None
    then show ?thesis using Cons by (simp add: update_def)
  next
    case (Some cat)
    with assms Cons dv have "categories cat = None \<or> categories cat = Some [] \<or>
        categorical_values cat = None \<or>
         (\<exists>vals. categorical_values cat = Some vals \<and> values_length vals = 0)"
      by auto
    then show ?thesis
      using Cons Some by (auto simp add: update_def split: option.splits)
  qed
qed

lemma buildDataArray_rows:
  assumes "length seriesCategories \<le> length (grouped vals)"
    and "\<forall>j < length seriesCategories. group_values (grouped vals ! j) \<noteq> []"
  shows "buildDataArray quarters seriesCategories vals =
     Inr (concat (map (\<lambda>j. map (\<lambda>i. \<lparr>quarter = quarters ! i, category = seriesCategories ! j,
                 value = js_or (array_get (column_values (hd (group_values (grouped vals ! j)))) i)
                           (Num 0)\<rparr>)
                    [0..<length quarters]) [0..<length seriesCategories]))"
proof -
  have wf: "\<forall>k. 0 \<le> k \<and> k < length seriesCategories \<longrightarrow>
             k < length (grouped vals) \<and> group_values (grouped vals ! k) \<noteq> []"
    using assms by auto
  show ?thesis
    unfolding buildDataArray_def using outerLoop_rows [OF wf, of quarters "[]"] by simp
qed

text \<open>
  C7, as amended. With no data view, no categorical data, no category list or an empty
  one, no value list or one of length \<open>0\<close>, \<open>update\<close> leaves the target without
  children and returns without throwing. In the flat record, a cell that is missing
  (\<open>undefined\<close>, as past the end of the series), \<open>null\<close>, \<open>NaN\<close> or otherwise falsy is
  \<open>0\<close>, and a truthy cell is kept as it is, whether it is a number or not. Applying
  \<open>|| 0\<close> to every cell beforehand changes neither the flat record nor anything
  \<open>update\<close> produces from it.
\<close>

theorem update_degrades_and_coerces:
  "((dataViews options = [] \<or> categorical (dataViews options ! 0) = None \<or>
     (\<exists>cat. categorical (dataViews options ! 0) = Some cat \<and>
        (categories cat = None \<or> categories cat = Some [] \<or> categorical_values cat = None \<or>
         (\<exists>vals. categorical_values cat = Some vals \<and> values_length vals = 0))))
    \<longrightarrow> update cmp target options = ([], None)) \<and>
   (length seriesCategories \<le> length (grouped vals) \<and>
    (\<forall>j < length seriesCategories. group_values (grouped vals ! j) \<noteq> [])
    \<longrightarrow> (\<exists>data. buildDataArray quarters seriesCategories vals = Inr data \<and>
          (\<forall>j < length seriesCategories. \<forall>i < length quarters.
             value (data ! (j * length quarters + i)) =
               (if truthy (array_get (column_values (group_values (grouped vals ! j) ! 0)) i)
                then array_get (column_values (group_values (grouped vals ! j) ! 0)) i
                else Num 0)))) \<and>
   array_get cells (length cells + n) = Undefined \<and>
   \<not> truthy Undefined \<and> \<not> truthy Null \<and> \<not> truthy NaN \<and>
   buildDataArray quarters seriesCategories (withCellsCoerced vals) =
     buildDataArray quarters seriesCategories vals \<and>
   update cmp target
     \<lparr>dataViews = \<lparr>categorical = Some \<lparr>categories = cats,
                     categorical_values = Some (withCellsCoerced vals)\<rparr>\<rparr> # rest,
      viewport_width = w, viewport_height = h\<rparr> =
   update cmp target
     \<lparr>dataViews = \<lparr>categorical = Some \<lparr>categories = cats,
                     categorical_values = Some vals\<rparr>\<rparr> # rest,
      viewport_width = w, viewport_height = h\<rparr>"
proof -
  let ?row = "\<lambda>j. map (\<lambda>i. \<lparr>quarter = quarters ! i, category = seriesCategories ! j,
                 value = js_or (array_get (column_values (hd (group_values (grouped vals ! j)))) i)
                           (Num 0)\<rparr>) [0..<length quarters]"
  let ?data = "concat (map ?row [0..<length seriesCategories])"
  have cellsv: "\<exists>data. buildDataArray quarters seriesCategories vals = Inr data \<and>
          (\<forall>j < length seriesCategories. \<forall>i < length quarters.
             value (data ! (j * length quarters + i)) =
               (if truthy (array_get (column_values (group_values (grouped vals ! j) ! 0)) i)
                then array_get (column_values (group_values (grouped vals ! j) ! 0)) i
                else Num 0))"
    if le: "length seriesCategories \<le> length (grouped vals)"
      and ne: "\<forall>j < length seriesCategories. group_values (grouped vals ! j) \<noteq> []"
  proof -
    have eq: "buildDataArray quarters seriesCategories vals = Inr ?data"
      by (rule buildDataArray_rows [OF le ne])
    have rows: "\<forall>k < length seriesCategories. length (?row k) = length quarters"
      by simp
    have "value (?data ! (j * length quarters + i)) =
               (if truthy (array_get (column_values (group_values (grouped vals ! j) ! 0)) i)
                then array_get (column_values (group_values (grouped vals ! j) ! 0)) i
                else Num 0)"
      if "j < length seriesCategories" and "i < length quarters" for j i
    proof -
      have "group_values (grouped vals ! j) \<noteq> []" using ne that(1) by simp
      then have hd0: "hd (group_values (grouped vals ! j)) = group_values (grouped vals ! j) ! 0"
        by (simp add: hd_conv_nth)
      have "?data ! (j * length quarters + i) = ?row j ! i"
        by (rule nth_concat_rows [OF that rows])
      then show ?thesis using that(2) by (simp add: hd0 js_or_def)
    qed
    then show ?thesis using eq by blast
  qed
  have missing: "array_get cells (length cells + n) = Undefined"
    by (simp add: array_get_def)
  show ?thesis
    using update_no_data [of options cmp target] cellsv missing
      buildDataArray_coerced [of quarters seriesCategories vals]
      update_coerced [of cmp target cats vals rest w h]
    by simp
qed

text \<open>
  C7 as stated fails: the non-numeric cell \<open>"n/a"\<close> stays \<open>"n/a"\<close> in the flat
  record, and the running total computed from it is a string, not \<open>0\<close>.
\<close>

theorem update_degrades_and_coerces_counterexample:
  "buildDataArray [''2023Q1''] [''A'']
     \<lparr>values_length = 1, grouped =
        [\<lparr>group_name = ''A'', group_values = [\<lparr>column_values = [Str ''n/a'']\<rparr>]\<rparr>]\<rparr> =
     Inr [\<lparr>quarter = ''2023Q1'', category = ''A'', value = Str ''n/a''\<rparr>] \<and>
   map runningTotal
     (computeRunningTotals [\<lparr>quarter = ''2023Q1'', category = ''A'', value = Str ''n/a''\<rparr>]) =
     [Opaque]"
  by code_simp

theorem update_degrades_and_coerces_witness:
  "update (\<lambda>a b. 0)
     [\<lparr>chart_width = 1, chart_height = 1, xDomain = [], yDomain = None, stackKeys = [],
       chart_data = []\<rparr>]
     \<lparr>dataViews = [], viewport_width = 400, viewport_height = 300\<rparr> = ([], None) \<and>
   (\<exists>data. buildDataArray [''2023Q1'', ''2023Q2''] [''A'']
        \<lparr>values_length = 1, grouped =
           [\<lparr>group_name = ''A'', group_values = [\<lparr>column_values = [Null]\<rparr>]\<rparr>]\<rparr> = Inr data \<and>
      value (data ! 0) = Num 0 \<and> value (data ! 1) = Num 0)"
proof -
  let ?vals = "\<lparr>values_length = 1, grouped =
           [\<lparr>group_name = ''A'', group_values = [\<lparr>column_values = [Null]\<rparr>]\<rparr>]\<rparr>"
  let ?opts = "\<lparr>dataViews = [], viewport_width = 400, viewport_height = 300\<rparr>"
  let ?target = "[\<lparr>chart_width = 1, chart_height = 1, xDomain = [], yDomain = None,
       stackKeys = [], chart_data = []\<rparr>]"
  note inst = update_degrades_and_coerces [of ?opts "\<lambda>a b. 0" ?target "[''A'']" ?vals
      "[''2023Q1'', ''2023Q2'']"]
  have e: "dataViews ?opts = [] \<or> categorical (dataViews ?opts ! 0) = None \<or>
     (\<exists>cat. categorical (dataViews ?opts ! 0) = Some cat \<and>
        (categories cat = None \<or> categories cat = Some [] \<or> categorical_values cat = None \<or>
         (\<exists>vals. categorical_values cat = Some vals \<and> values_length vals = 0)))"
    by simp
  have u: "update (\<lambda>a b. 0) ?target ?opts = ([], None)"
    by (rule inst [THEN conjunct1, rule_format, OF e])
  have wf: "length [''A''] \<le> length (grouped ?vals) \<and>
    (\<forall>j < length [''A'']. group_values (grouped ?vals ! j) \<noteq> [])"
    by simp
  from inst [THEN conjunct2, THEN conjunct1, rule_format, OF wf]
  obtain data where d: "buildDataArray [''2023Q1'', ''2023Q2''] [''A''] ?vals = Inr data"
    and v: "\<forall>j < length [''A'']. \<forall>i < length [''2023Q1'', ''2023Q2''].
             value (data ! (j * length [''2023Q1'', ''2023Q2''] + i)) =
               (if truthy (array_get (column_values (group_values (grouped ?vals ! j) ! 0)) i)
                then array_get (column_values (group_values (grouped ?vals ! j) ! 0)) i
                else Num 0)"
    by blast
  have v0: "value (data ! 0) = Num 0"
    using v [rule_format, of 0 0] by (simp add: array_get_def)
  have v1: "value (data ! 1) = Num 0"
    using v [rule_format, of 0 1] by (simp add: array_get_def)
  show ?thesis
    using u d v0 v1 by blast
qed

section \<open>The basic scenario\<close>

text \<open>
  C1. Periods \<open>["2023Q2", "2023Q1"]\<close>, categories \<open>A\<close> and \<open>B\<close>, first value series
  \<open>A = [10, 5]\<close> and \<open>B = [3, 7]\<close>, under a comparator that puts \<open>2023Q1\<close> before
  \<open>2023Q2\<close>: the periods are sorted to \<open>["2023Q1", "2023Q2"]\<close>; value index \<open>i\<close> is
  bound to sorted period \<open>i\<close>, so \<open>A\<close> has 10 at \<open>2023Q1\<close> and 5 at \<open>2023Q2\<close>, \<open>B\<close>
  has 3 and 7; the running totals are \<open>A\<close>: 10, 15 and \<open>B\<close>: 3, 10; and \<open>update\<close>
  draws from exactly these.
\<close>

theorem basic_scenario:
  assumes "0 < cmp ''2023Q2'' ''2023Q1''"
  shows
    "fst (sortQuarters cmp ((\<lambda>_. [])(0 := [''2023Q2'', ''2023Q1''])) 0) 0 = [''2023Q1'', ''2023Q2''] \<and>
     buildDataArray [''2023Q1'', ''2023Q2''] [''A'', ''B'']
       \<lparr>values_length = 2, grouped =
          [\<lparr>group_name = ''A'', group_values = [\<lparr>column_values = [Num 10, Num 5]\<rparr>]\<rparr>,
           \<lparr>group_name = ''B'', group_values = [\<lparr>column_values = [Num 3, Num 7]\<rparr>]\<rparr>]\<rparr>
       = Inr [\<lparr>quarter = ''2023Q1'', category = ''A'', value = Num 10\<rparr>,
              \<lparr>quarter = ''2023Q2'', category = ''A'', value = Num 5\<rparr>,
              \<lparr>quarter = ''2023Q1'', category = ''B'', value = Num 3\<rparr>,
              \<lparr>quarter = ''2023Q2'', category = ''B'', value = Num 7\<rparr>] \<and>
     computeRunningTotals
       [\<lparr>quarter = ''2023Q1'', category = ''A'', value = Num 10\<rparr>,
        \<lparr>quarter = ''2023Q2'', category = ''A'', value = Num 5\<rparr>,
        \<lparr>quarter = ''2023Q1'', category = ''B'', value = Num 3\<rparr>,
        \<lparr>quarter = ''2023Q2'', category = ''B'', value = Num 7\<rparr>]
       = [\<lparr>quarter = ''2023Q1'', category = ''A'', value = Num 10, runningTotal = Num 10\<rparr>,
          \<lparr>quarter = ''2023Q2'', category = ''A'', value = Num 5, runningTotal = Num 15\<rparr>,
          \<lparr>quarter = ''2023Q1'', category = ''B'', value = Num 3, runningTotal = Num 3\<rparr>,
          \<lparr>quarter = ''2023Q2'', category = ''B'', value = Num 7, runningTotal = Num 10\<rparr>] \<and>
     update cmp target
       \<lparr>dataViews =
          [\<lparr>categorical = Some
              \<lparr>categories = Some [\<lparr>category_values = [''2023Q2'', ''2023Q1'']\<rparr>],
               categorical_values = Some
                 \<lparr>values_length = 2, grouped =
                    [\<lparr>group_name = ''A'', group_values = [\<lparr>column_values = [Num 10, Num 5]\<rparr>]\<rparr>,
                     \<lparr>group_name = ''B'', group_values = [\<lparr>column_values = [Num 3, Num 7]\<rparr>]\<rparr>]\<rparr>\<rparr>\<rparr>],
        viewport_width = w, viewport_height = ht\<rparr>
       = ([\<lparr>chart_width = w, chart_height = ht,
            xDomain = [''2023Q1'', ''2023Q2''],
            yDomain = Some (Num 0, Num 25),
            stackKeys = [''A'', ''B''],
            chart_data =
              [\<lparr>props = [(''quarter'', Str ''2023Q1''), (''A'', Num 10), (''B'', Num 3)],
                hasPrototype = True\<rparr>,
               \<lparr>props = [(''quarter'', Str ''2023Q2''), (''A'', Num 15), (''B'', Num 10)],
                hasPrototype = True\<rparr>]\<rparr>], None)"
proof -
  have s: "array_sort cmp [''2023Q2'', ''2023Q1''] = [''2023Q1'', ''2023Q2'']"
    using assms by simp
  have b: "buildDataArray [''2023Q1'', ''2023Q2''] [''A'', ''B'']
       \<lparr>values_length = 2, grouped =
          [\<lparr>group_name = ''A'', group_values = [\<lparr>column_values = [Num 10, Num 5]\<rparr>]\<rparr>,
           \<lparr>group_name = ''B'', group_values = [\<lparr>column_values = [Num 3, Num 7]\<rparr>]\<rparr>]\<rparr>
       = Inr [\<lparr>quarter = ''2023Q1'', category = ''A'', value = Num 10\<rparr>,
              \<lparr>quarter = ''2023Q2'', category = ''A'', value = Num 5\<rparr>,
              \<lparr>quarter = ''2023Q1'', category = ''B'', value = Num 3\<rparr>,
              \<lparr>quarter = ''2023Q2'', category = ''B'', value = Num 7\<rparr>]"
    by code_simp
  have c: "computeRunningTotals
       [\<lparr>quarter = ''2023Q1'', category = ''A'', value = Num 10\<rparr>,
        \<lparr>quarter = ''2023Q2'', category = ''A'', value = Num 5\<rparr>,
        \<lparr>quarter = ''2023Q1'', category = ''B'', value = Num 3\<rparr>,
        \<lparr>quarter = ''2023Q2'', category = ''B'', value = Num 7\<rparr>]
       = [\<lparr>quarter = ''2023Q1'', category = ''A'', value = Num 10, runningTotal = Num 10\<rparr>,
          \<lparr>quarter = ''2023Q2'', category = ''A'', value = Num 5, runningTotal = Num 15\<rparr>,
          \<lparr>quarter = ''2023Q1'', category = ''B'', value = Num 3, runningTotal = Num 3\<rparr>,
          \<lparr>quarter = ''2023Q2'', category = ''B'', value = Num 7, runningTotal = Num 10\<rparr>]"
    by code_simp
  have t: "transformToStackedData
       [\<lparr>quarter = ''2023Q1'', category = ''A'', value = Num 10, runningTotal = Num 10\<rparr>,
          \<lparr>quarter = ''2023Q2'', category = ''A'', value = Num 5, runningTotal = Num 15\<rparr>,
          \<lparr>quarter = ''2023Q1'', category = ''B'', value = Num 3, runningTotal = Num 3\<rparr>,
          \<lparr>quarter = ''2023Q2'', category = ''B'', value = Num 7, runningTotal = Num 10\<rparr>]
       [''2023Q1'', ''2023Q2''] [''A'', ''B'']
     = [\<lparr>props = [(''quarter'', Str ''2023Q1''), (''A'', Num 10), (''B'', Num 3)],
                hasPrototype = True\<rparr>,
               \<lparr>props = [(''quarter'', Str ''2023Q2''), (''A'', Num 15), (''B'', Num 10)],
                hasPrototype = True\<rparr>]"
    by code_simp
  have m: "maxY [\<lparr>props = [(''quarter'', Str ''2023Q1''), (''A'', Num 10), (''B'', Num 3)],
                hasPrototype = True\<rparr>,
               \<lparr>props = [(''quarter'', Str ''2023Q2''), (''A'', Num 15), (''B'', Num 10)],
                hasPrototype = True\<rparr>] [''A'', ''B''] = Some (Num 25)"
    by code_simp
  have u: "update cmp target
       \<lparr>dataViews =
          [\<lparr>categorical = Some
              \<lparr>categories = Some [\<lparr>category_values = [''2023Q2'', ''2023Q1'']\<rparr>],
               categorical_values = Some
                 \<lparr>values_length = 2, grouped =
                    [\<lparr>group_name = ''A'', group_values = [\<lparr>column_values = [Num 10, Num 5]\<rparr>]\<rparr>,
                     \<lparr>group_name = ''B'', group_values = [\<lparr>column_values = [Num 3, Num 7]\<rparr>]\<rparr>]\<rparr>\<rparr>\<rparr>],
        viewport_width = w, viewport_height = ht\<rparr>
       = ([\<lparr>chart_width = w, chart_height = ht,
            xDomain = [''2023Q1'', ''2023Q2''],
            yDomain = Some (Num 0, Num 25),
            stackKeys = [''A'', ''B''],
            chart_data =
              [\<lparr>props = [(''quarter'', Str ''2023Q1''), (''A'', Num 10), (''B'', Num 3)],
                hasPrototype = True\<rparr>,
               \<lparr>props = [(''quarter'', Str ''2023Q2''), (''A'', Num 15), (''B'', Num 10)],
                hasPrototype = True\<rparr>]\<rparr>], None)"
    unfolding update_def sortQuarters_def
    by (simp add: s b c t m Let_def del: array_sort.simps)
  show ?thesis
    using s b c u by (simp add: sortQuarters_def del: array_sort.simps)
qed

theorem basic_scenario_witness:
  "fst (sortQuarters (\<lambda>a b. if a = b then 0 else if a = ''2023Q1'' then - 1 else 1)
          ((\<lambda>_. [])(0 := [''2023Q2'', ''2023Q1''])) 0) 0 = [''2023Q1'', ''2023Q2''] \<and>
   update (\<lambda>a b. if a = b then 0 else if a = ''2023Q1'' then - 1 else 1) []
       \<lparr>dataViews =
          [\<lparr>categorical = Some
              \<lparr>categories = Some [\<lparr>category_values = [''2023Q2'', ''2023Q1'']\<rparr>],
               categorical_values = Some
                 \<lparr>values_length = 2, grouped =
                    [\<lparr>group_name = ''A'', group_values = [\<lparr>column_values = [Num 10, Num 5]\<rparr>]\<rparr>,
                     \<lparr>group_name = ''B'', group_values = [\<lparr>column_values = [Num 3, Num 7]\<rparr>]\<rparr>]\<rparr>\<rparr>\<rparr>],
        viewport_width = 400, viewport_height = 300\<rparr>
       = ([\<lparr>chart_width = 400, chart_height = 300,
            xDomain = [''2023Q1'', ''2023Q2''],
            yDomain = Some (Num 0, Num 25),
            stackKeys = [''A'', ''B''],
            chart_data =
              [\<lparr>props = [(''quarter'', Str ''2023Q1''), (''A'', Num 10), (''B'', Num 3)],
                hasPrototype = True\<rparr>,
               \<lparr>props = [(''quarter'', Str ''2023Q2''), (''A'', Num 15), (''B'', Num 10)],
                hasPrototype = True\<rparr>]\<rparr>], None)"
proof -
  have h: "0 < (\<lambda>a b. if a = b then 0 else if a = ''2023Q1'' then - 1 else (1::int))
             ''2023Q2'' ''2023Q1''"
    by simp
  from basic_scenario [of "\<lambda>a b. if a = b then 0 else if a = ''2023Q1'' then - 1 else 1",
      OF h, of "[]" 400 300]
  show ?thesis by blast
qed

end
